theory Spec2Isabelle
  imports Complex_Main "HOL-Library.Multiset"
begin

section \<open>JavaScript preliminaries\<close>

text \<open>
  The outcome of an awaited promise: it is fulfilled, or it is rejected with an error.
  An error is kept as the text that \<^verbatim>\<open>String(error)\<close> renders.
\<close>

datatype settled = Fulfilled | Rejected string

text \<open>
  \<^verbatim>\<open>parseInt(s, 10)\<close>: leading white space is skipped, one sign is read, then the longest
  run of decimal digits; with no digit the result is NaN, which is \<open>None\<close> here. Only the
  ASCII white space characters are recognised (a \<open>char\<close> is a byte), and the digits are read
  as an exact integer.
\<close>

definition isWhiteSpace :: "char \<Rightarrow> bool" where
  "isWhiteSpace c = (of_char c \<in> {9::nat, 10, 11, 12, 13, 32})"

definition isDigit :: "char \<Rightarrow> bool" where
  "isDigit c = (48 \<le> (of_char c :: nat) \<and> (of_char c :: nat) \<le> 57)"

definition digitValue :: "char \<Rightarrow> int" where
  "digitValue c = int (of_char c) - 48"

definition digitsValue :: "string \<Rightarrow> int" where
  "digitsValue ds = foldl (\<lambda>acc c. 10 * acc + digitValue c) 0 ds"

definition parseInt :: "string \<Rightarrow> int option" where
  "parseInt s =
     (let t = dropWhile isWhiteSpace s;
          negative = (t \<noteq> [] \<and> hd t = CHR ''-'');
          u = (if t \<noteq> [] \<and> (hd t = CHR ''-'' \<or> hd t = CHR ''+'') then tl t else t);
          ds = takeWhile isDigit u
      in if ds = [] then None
         else Some (if negative then - digitsValue ds else digitsValue ds))"

text \<open>The nullish coalescing operator \<^verbatim>\<open>a ?? b\<close> on a value that may be undefined.\<close>

definition nullish :: "'a option \<Rightarrow> 'a \<Rightarrow> 'a" where
  "nullish a b = (case a of None \<Rightarrow> b | Some v \<Rightarrow> v)"

section \<open>The HTTP API server\<close>

subsection \<open>Values of a parsed request body\<close>

text \<open>
  A request body is parsed by \<^verbatim>\<open>JSON.parse\<close> and typed \<^verbatim>\<open>Record<string, unknown>\<close>;
  its properties are cast (\<^verbatim>\<open>as number\<close>, \<^verbatim>\<open>as string\<close>) without a check, so a handler
  works on whatever value the client sent. Numbers are IEEE doubles, idealised as exact
  rationals with the two infinities and NaN. \<open>JUndefined\<close> is what reading an absent
  property gives. An object lists its own properties, each name once.
\<close>

datatype jsnum = NaN | NegInf | Fin rat | PosInf

datatype jsval =
    JUndefined
  | JNull
  | JBool bool
  | JNum jsnum
  | JStr string
  | JArr "jsval list"
  | JObj "(string \<times> jsval) list"

text \<open>Truthiness, as \<^verbatim>\<open>!v\<close> and \<^verbatim>\<open>if (v)\<close> read it.\<close>

fun truthy :: "jsval \<Rightarrow> bool" where
  "truthy JUndefined = False"
| "truthy JNull = False"
| "truthy (JBool b) = b"
| "truthy (JNum n) = (n \<noteq> NaN \<and> n \<noteq> Fin 0)"
| "truthy (JStr s) = (s \<noteq> [])"
| "truthy (JArr xs) = True"
| "truthy (JObj fs) = True"

text \<open>
  Reading a property \<^verbatim>\<open>v.name\<close>, for the names this server reads (none of them is a
  property of a primitive's wrapper or of a prototype): a TypeError on null and
  undefined, the own property of an object, undefined otherwise.
\<close>

fun getProp :: "jsval \<Rightarrow> string \<Rightarrow> string + jsval" where
  "getProp JUndefined k = Inl ''TypeError: Cannot read properties of undefined''"
| "getProp JNull k = Inl ''TypeError: Cannot read properties of null''"
| "getProp (JObj fs) k = Inr (case map_of fs k of None \<Rightarrow> JUndefined | Some v \<Rightarrow> v)"
| "getProp v k = Inr JUndefined"

text \<open>
  Conversion to a primitive (for a comparison or a template string) throws a TypeError
  exactly on an object parsed from JSON that has an own property \<^verbatim>\<open>toString\<close> (it
  shadows the prototype's method and is not callable), and on an array that holds such
  an object, since an array is joined element by element.
\<close>

fun coercible :: "jsval \<Rightarrow> bool" where
  "coercible (JObj fs) = (''toString'' \<notin> set (map fst fs))"
| "coercible (JArr xs) = list_all coercible xs"
| "coercible v = True"

text \<open>
  \<^verbatim>\<open>ToNumber\<close>. The number a string denotes (and so the number an array's joined text
  denotes) is computed by the language's \<^verbatim>\<open>StringToNumber\<close>, taken as the parameter
  \<open>textToNumber\<close>; a plain object converts to the text \<^verbatim>\<open>[object Object]\<close>, which is NaN.
\<close>

definition toNumber :: "(jsval \<Rightarrow> jsnum) \<Rightarrow> jsval \<Rightarrow> string + jsnum" where
  "toNumber textToNumber v =
     (if \<not> coercible v then Inl ''TypeError: Cannot convert object to primitive value''
      else Inr (case v of
                  JUndefined \<Rightarrow> NaN
                | JNull \<Rightarrow> Fin 0
                | JBool b \<Rightarrow> Fin (if b then 1 else 0)
                | JNum n \<Rightarrow> n
                | JObj fs \<Rightarrow> NaN
                | _ \<Rightarrow> textToNumber v))"

text \<open>The comparisons \<^verbatim>\<open><\<close> and \<^verbatim>\<open><=\<close> on numbers: false when either side is NaN.\<close>

fun num_lt :: "jsnum \<Rightarrow> jsnum \<Rightarrow> bool" where
  "num_lt NaN y = False"
| "num_lt x NaN = False"
| "num_lt x NegInf = False"
| "num_lt NegInf y = True"
| "num_lt PosInf y = False"
| "num_lt (Fin a) PosInf = True"
| "num_lt (Fin a) (Fin b) = (a < b)"

definition num_le :: "jsnum \<Rightarrow> jsnum \<Rightarrow> bool" where
  "num_le x y = (x \<noteq> NaN \<and> y \<noteq> NaN \<and> \<not> num_lt y x)"

text \<open>Decimal text of a natural number, as a template string renders a counter.\<close>

definition digitChar :: "nat \<Rightarrow> char" where
  "digitChar d = char_of (48 + d)"

function showNat :: "nat \<Rightarrow> string" where
  "showNat n = (if n < 10 then [digitChar n] else showNat (n div 10) @ [digitChar (n mod 10)])"
  by pat_completeness auto
termination
  by (relation "measure id") auto

declare showNat.simps [simp del]

text \<open>\<^verbatim>\<open>text.includes(needle)\<close>: the needle occurs as a contiguous part of the text.\<close>

fun prefix_of :: "string \<Rightarrow> string \<Rightarrow> bool" where
  "prefix_of [] ys = True"
| "prefix_of (x # xs) [] = False"
| "prefix_of (x # xs) (y # ys) = (x = y \<and> prefix_of xs ys)"

fun includes_str :: "string \<Rightarrow> string \<Rightarrow> bool" where
  "includes_str [] needle = (needle = [])"
| "includes_str (c # cs) needle = (prefix_of needle (c # cs) \<or> includes_str cs needle)"

subsection \<open>State of the server\<close>

datatype LoopStatus = Running | Completed | Failed | Cancelled

type_synonym ChildProcess = nat

datatype Signal = SIGTERM

text \<open>
  A loop object. Loop objects are shared: the map \<^verbatim>\<open>activeLoops\<close> and the running
  \<^verbatim>\<open>runIterations\<close> task hold the same object, so the objects live in a store and are
  named by reference. \<^verbatim>\<open>process\<close> starts as null (the cast
  \<^verbatim>\<open>null as unknown as ChildProcess\<close>), and \<^verbatim>\<open>iterations\<close> is the unchecked value of
  the request body.
\<close>

record LoopProcess =
  loop_id :: string
  process :: "ChildProcess option"
  iterations :: jsval
  currentIteration :: nat
  status :: LoopStatus
  loop_output :: "string list"
  startedAt :: string

type_synonym LoopRef = nat

text \<open>
  What the server does to the world outside its own state, in order: a line given to
  \<^verbatim>\<open>log("API", ...)\<close> (one constructor for each message, holding the values the message
  interpolates), a signal sent to a child process, a child process spawned (with the
  command it runs and its working directory), the listener bound, the listener closed,
  and a rejected promise that nothing awaits.
\<close>

datatype LogMessage =
    ServerRunning "int option"
  | ServerError string
  | CancelledLoop string
  | ErrorHandling string string
  | CreatingPlan jsval jsval
  | PlanCreated
  | FailedToCreatePlan string
  | SavingPRD jsval
  | PRDSaved
  | FailedToSavePRD string
  | StartingLoop string jsval jsval
  | ClearingAllSessions
  | FailedToClearSessions string
  | StartingIteration string nat jsval
  | PRDComplete string nat
  | IterationFailed string nat string
  | LoopFinished string LoopStatus

datatype Command = PlanCommand jsval | IterationCommand

datatype Effect =
    Log LogMessage
  | Kill ChildProcess Signal
  | Spawn ChildProcess Command jsval
  | Listen "int option"
  | CloseServer
  | UnhandledRejection string

text \<open>The node HTTP server object: whether it is listening.\<close>

datatype HttpServer = HttpServer bool

record 'x ApiServerOptions =
  port :: "int option option"
  workDir :: "string option"
  onClearSessions :: "('x \<Rightarrow> settled \<times> 'x) option"

text \<open>
  The server object. \<open>'x\<close> is the state the clear-sessions callback works on. A port is
  a number that may be NaN (\<open>None\<close>). \<open>heap\<close> and \<open>nextRef\<close> are the store of loop
  objects, \<open>effects\<close> the effects so far. \<open>tasks\<close> holds the \<^verbatim>\<open>runIterations\<close> calls that
  are suspended at their \<^verbatim>\<open>await\<close>: for a loop object, the iteration counter \<^verbatim>\<open>i\<close> and
  the working directory of the suspended call.
\<close>

record 'x ApiServer =
  server :: "HttpServer option"
  port :: "int option"
  workDir :: string
  activeLoops :: "(string \<times> LoopRef) list"
  onClearSessions :: "('x \<Rightarrow> settled \<times> 'x) option"
  heap :: "LoopRef \<Rightarrow> LoopProcess option"
  nextRef :: LoopRef
  tasks :: "LoopRef \<Rightarrow> (nat \<times> jsval) option"
  effects :: "Effect list"

definition DEFAULT_API_PORT :: int where
  "DEFAULT_API_PORT = 4451"

text \<open>The constructor; \<open>cwd\<close> is \<^verbatim>\<open>process.cwd()\<close>.\<close>

definition ApiServer_constructor :: "'x ApiServerOptions \<Rightarrow> string \<Rightarrow> 'x ApiServer" where
  "ApiServer_constructor options cwd =
     \<lparr>server = None,
      port = nullish (ApiServerOptions.port options) (Some DEFAULT_API_PORT),
      workDir = nullish (ApiServerOptions.workDir options) cwd,
      activeLoops = [],
      onClearSessions = ApiServerOptions.onClearSessions options,
      heap = (\<lambda>r. None),
      nextRef = 0,
      tasks = (\<lambda>r. None),
      effects = []\<rparr>"

definition emit :: "Effect list \<Rightarrow> 'x ApiServer \<Rightarrow> 'x ApiServer" where
  "emit es a = a\<lparr>effects := effects a @ es\<rparr>"

text \<open>
  \<^verbatim>\<open>Map.prototype.set\<close>: a key that is present keeps its place and takes the new
  value, a new key goes last. Iteration follows the list.
\<close>

fun map_set :: "string \<Rightarrow> 'v \<Rightarrow> (string \<times> 'v) list \<Rightarrow> (string \<times> 'v) list" where
  "map_set k v [] = [(k, v)]"
| "map_set k v ((k', v') # es) =
     (if k = k' then (k, v) # es else (k', v') # map_set k v es)"

text \<open>
  \<^verbatim>\<open>start\<close>: the server object is created, then the listener is bound; \<open>listened\<close> is
  what the bind does (an \<^verbatim>\<open>error\<close> event rejects the promise).
\<close>

definition start :: "settled \<Rightarrow> 'x ApiServer \<Rightarrow> settled \<times> 'x ApiServer" where
  "start listened a =
     (case listened of
        Fulfilled \<Rightarrow>
          (Fulfilled,
           emit [Listen (port a), Log (ServerRunning (port a))] (a\<lparr>server := Some (HttpServer True)\<rparr>))
      | Rejected e \<Rightarrow>
          (Rejected e, emit [Log (ServerError e)] (a\<lparr>server := Some (HttpServer False)\<rparr>)))"

subsection \<open>Stopping the server\<close>

text \<open>
  The loop of \<^verbatim>\<open>stop\<close> over the entries of \<^verbatim>\<open>activeLoops\<close>: a loop that has a process and
  is running is sent SIGTERM and marked cancelled.
\<close>

fun stop_loops :: "(string \<times> LoopRef) list \<Rightarrow> 'x ApiServer \<Rightarrow> 'x ApiServer" where
  "stop_loops [] a = a"
| "stop_loops ((k, r) # es) a =
     stop_loops es
       (case heap a r of
          None \<Rightarrow> a
        | Some loop \<Rightarrow>
            (case process loop of
               None \<Rightarrow> a
             | Some p \<Rightarrow>
                 if status loop = Running
                 then emit [Kill p SIGTERM, Log (CancelledLoop k)]
                        (a\<lparr>heap := (heap a)(r \<mapsto> loop\<lparr>status := Cancelled\<rparr>)\<rparr>)
                 else a))"

text \<open>
  \<^verbatim>\<open>stop\<close>. The returned flag says whether the promise resolves: at once when there is
  no server object; otherwise when node runs the callback of \<^verbatim>\<open>server.close\<close>, which the
  parameter \<open>closeCallbackRuns\<close> stands for.
\<close>

definition stop :: "bool \<Rightarrow> 'x ApiServer \<Rightarrow> bool \<times> 'x ApiServer" where
  "stop closeCallbackRuns a =
     (let a1 = stop_loops (activeLoops a) a;
          a2 = a1\<lparr>activeLoops := []\<rparr>
      in case server a2 of
           Some srv \<Rightarrow> (closeCallbackRuns, emit [CloseServer] (a2\<lparr>server := Some (HttpServer False)\<rparr>))
         | None \<Rightarrow> (True, a2))"

subsection \<open>Iteration loops\<close>

text \<open>
  What the environment supplies while one request is handled or one loop is started: the
  clock (\<^verbatim>\<open>Date.now()\<close> and the ISO text of \<^verbatim>\<open>new Date()\<close>), what \<^verbatim>\<open>spawn\<close> does (it
  throws, or returns a child process), how the child of \<^verbatim>\<open>runCommand\<close> ends (\<open>None\<close>:
  the five minute timeout comes first), and what joining the path and writing the plan
  file does (an error, or the path written). A child ends with its exit code (null after
  a signal), standard output and standard error, or with an \<^verbatim>\<open>error\<close> event.
\<close>

datatype ProcessEnd = Exited "int option" string string | ErrorEvent string

record Inputs =
  dateNow :: nat
  dateIso :: string
  spawned :: "string + ChildProcess"
  commandEnd :: "ProcessEnd option"
  saved :: "string + string"

definition showCode :: "int option \<Rightarrow> string" where
  "showCode code =
     (case code of
        None \<Rightarrow> ''null''
      | Some c \<Rightarrow> if c < 0 then ''-'' @ showNat (nat (- c)) else showNat (nat c))"

definition commandFailed :: "int option \<Rightarrow> string \<Rightarrow> string \<Rightarrow> string" where
  "commandFailed code out err =
     ''Error: Command failed with code '' @ showCode code @ '': '' @ (if err \<noteq> [] then err else out)"

text \<open>
  How the promise of \<^verbatim>\<open>runCommandWithProcess\<close> settles when the child ends: exit code 0
  and a null exit code (the child was ended by a signal) resolve with the standard output.
\<close>

definition runCommandWithProcess_settle :: "ProcessEnd \<Rightarrow> string + string" where
  "runCommandWithProcess_settle e =
     (case e of
        Exited code out err \<Rightarrow>
          if code = Some 0 \<or> code = None then Inr out else Inl (commandFailed code out err)
      | ErrorEvent msg \<Rightarrow> Inl msg)"

definition setLoop :: "LoopRef \<Rightarrow> LoopProcess \<Rightarrow> 'x ApiServer \<Rightarrow> 'x ApiServer" where
  "setLoop r loop a = a\<lparr>heap := (heap a)(r \<mapsto> loop)\<rparr>"

text \<open>The end of \<^verbatim>\<open>runIterations\<close>, after the \<^verbatim>\<open>for\<close> loop: the task is over.\<close>

definition runIterations_finish :: "LoopRef \<Rightarrow> 'x ApiServer \<Rightarrow> 'x ApiServer" where
  "runIterations_finish r a =
     (case heap a r of
        None \<Rightarrow> a\<lparr>tasks := (tasks a)(r := None)\<rparr>
      | Some loop \<Rightarrow>
          (let loop' = (if status loop = Running then loop\<lparr>status := Completed\<rparr> else loop)
           in emit [Log (LoopFinished (loop_id loop') (status loop'))]
                (setLoop r loop' (a\<lparr>tasks := (tasks a)(r := None)\<rparr>))))"

text \<open>The \<^verbatim>\<open>catch\<close> block of an iteration, followed by the \<^verbatim>\<open>break\<close>.\<close>

definition runIterations_catch :: "nat \<Rightarrow> string \<Rightarrow> LoopRef \<Rightarrow> 'x ApiServer \<Rightarrow> 'x ApiServer" where
  "runIterations_catch i err r a =
     (case heap a r of
        None \<Rightarrow> a
      | Some loop \<Rightarrow>
          runIterations_finish r
            (setLoop r
               (loop\<lparr>loop_output := loop_output loop @ [''Error in iteration '' @ showNat i @ '': '' @ err],
                     status := Failed\<rparr>)
               (emit [Log (IterationFailed (loop_id loop) i err)] a)))"

text \<open>
  \<^verbatim>\<open>runIterations\<close> from the test \<^verbatim>\<open>i <= loop.iterations\<close> of the \<^verbatim>\<open>for\<close> loop up to the
  next \<^verbatim>\<open>await\<close>: the loop ends when the test fails or the status is no longer running;
  otherwise iteration \<open>i\<close> starts, a child is spawned and the task is suspended. A
  \<^verbatim>\<open>spawn\<close> that throws rejects the awaited promise, which the \<^verbatim>\<open>catch\<close> block handles
  before any other event is served. A test that throws rejects the promise of
  \<^verbatim>\<open>runIterations\<close> itself, which nothing awaits.
\<close>

definition runIterations_from ::
  "(jsval \<Rightarrow> jsnum) \<Rightarrow> (string + ChildProcess) \<Rightarrow> jsval \<Rightarrow> nat \<Rightarrow> LoopRef \<Rightarrow>
   'x ApiServer \<Rightarrow> 'x ApiServer" where
  "runIterations_from textToNumber spawnResult dir i r a =
     (case heap a r of
        None \<Rightarrow> a
      | Some loop \<Rightarrow>
          (case toNumber textToNumber (iterations loop) of
             Inl e \<Rightarrow> emit [UnhandledRejection e] (a\<lparr>tasks := (tasks a)(r := None)\<rparr>)
           | Inr n \<Rightarrow>
               if \<not> num_le (Fin (of_nat i)) n then runIterations_finish r a
               else if status loop \<noteq> Running then runIterations_finish r a
               else
                 (let loop1 = loop\<lparr>currentIteration := i\<rparr>;
                      a1 = emit [Log (StartingIteration (loop_id loop) i (iterations loop))]
                             (setLoop r loop1 a)
                  in case spawnResult of
                       Inr p \<Rightarrow>
                         emit [Spawn p IterationCommand dir]
                           (setLoop r (loop1\<lparr>process := Some p\<rparr>)
                              (a1\<lparr>tasks := (tasks a1)(r \<mapsto> (i, dir))\<rparr>))
                     | Inl err \<Rightarrow> runIterations_catch i err r a1)))"

text \<open>
  \<^verbatim>\<open>runIterations\<close> resumed: the command of the suspended iteration has settled with
  \<open>result\<close>. The output is recorded; the loop ends on the completion marker or on an
  error, and goes on with the next value of \<open>i\<close> otherwise.
\<close>

definition runIterations_resume ::
  "(jsval \<Rightarrow> jsnum) \<Rightarrow> (string + ChildProcess) \<Rightarrow> (string + string) \<Rightarrow> LoopRef \<Rightarrow>
   'x ApiServer \<Rightarrow> 'x ApiServer" where
  "runIterations_resume textToNumber spawnResult result r a =
     (case (tasks a r, heap a r) of
        (Some (i, dir), Some loop) \<Rightarrow>
          (case result of
             Inr out \<Rightarrow>
               (let loop1 = loop\<lparr>loop_output :=
                              loop_output loop @ [''=== Iteration '' @ showNat i @ '' ==='', out]\<rparr>;
                    a1 = setLoop r loop1 a
                in if includes_str out ''<promise>COMPLETE</promise>''
                   then runIterations_finish r
                          (setLoop r (loop1\<lparr>status := Completed\<rparr>)
                             (emit [Log (PRDComplete (loop_id loop) i)] a1))
                   else runIterations_from textToNumber spawnResult dir (Suc i) r a1)
           | Inl err \<Rightarrow> runIterations_catch i err r a)
      | _ \<Rightarrow> a)"

text \<open>\<^verbatim>\<open>startLoopProcess\<close>: a new loop object is registered and its iterations are started.\<close>

definition startLoopProcess ::
  "(jsval \<Rightarrow> jsnum) \<Rightarrow> Inputs \<Rightarrow> string \<Rightarrow> jsval \<Rightarrow> jsval \<Rightarrow> 'x ApiServer \<Rightarrow> 'x ApiServer" where
  "startLoopProcess textToNumber inp loopId its dir a =
     (let r = nextRef a;
          loop = \<lparr>loop_id = loopId, process = None, iterations = its, currentIteration = 0,
                  status = Running, loop_output = [], startedAt = dateIso inp\<rparr>;
          a1 = a\<lparr>heap := (heap a)(r \<mapsto> loop), nextRef := Suc r,
                 activeLoops := map_set loopId r (activeLoops a)\<rparr>
      in runIterations_from textToNumber (spawned inp) dir 1 r a1)"

subsection \<open>Requests and responses\<close>

text \<open>
  A request as the handlers read it: the method, the path name of the URL, and what
  \<^verbatim>\<open>parseBody\<close> gives (the parsed value, the empty object for an empty body, or the
  rejection \<^verbatim>\<open>Invalid JSON body\<close>). A response is its status code, its headers and the
  value whose JSON text is the body.
\<close>

record Request =
  httpMethod :: string
  pathname :: string
  parsedBody :: "string + jsval"

record Response =
  statusCode :: nat
  headers :: "(string \<times> string) list"
  payload :: "jsval option"

definition jsonResponse :: "nat \<Rightarrow> jsval \<Rightarrow> Response" where
  "jsonResponse code v =
     \<lparr>statusCode = code, headers = [(''Content-Type'', ''application/json'')], payload = Some v\<rparr>"

definition errorResponse :: "nat \<Rightarrow> string \<Rightarrow> Response" where
  "errorResponse code msg = jsonResponse code (JObj [(''error'', JStr msg)])"

definition corsHeaders :: "(string \<times> string) list" where
  "corsHeaders =
     [(''Access-Control-Allow-Origin'', ''*''),
      (''Access-Control-Allow-Methods'', ''GET, POST, OPTIONS''),
      (''Access-Control-Allow-Headers'', ''Content-Type'')]"

definition setCorsHeaders :: "Response \<Rightarrow> Response" where
  "setCorsHeaders res = res\<lparr>headers := corsHeaders @ headers res\<rparr>"

text \<open>\<^verbatim>\<open>(body.workDir as string) ?? this.workDir\<close>.\<close>

definition workDirOf :: "jsval \<Rightarrow> 'x ApiServer \<Rightarrow> jsval" where
  "workDirOf v a = (if v = JUndefined \<or> v = JNull then JStr (workDir a) else v)"

text \<open>
  \<^verbatim>\<open>runCommand\<close>: the promise of the command's standard output. A \<^verbatim>\<open>spawn\<close> that throws
  rejects it; the timeout ends the child with SIGTERM and rejects it.
\<close>

definition runCommand ::
  "Inputs \<Rightarrow> Command \<Rightarrow> jsval \<Rightarrow> 'x ApiServer \<Rightarrow> (string + string) \<times> 'x ApiServer" where
  "runCommand inp cmd dir a =
     (case spawned inp of
        Inl e \<Rightarrow> (Inl e, a)
      | Inr p \<Rightarrow>
          (let a1 = emit [Spawn p cmd dir] a
           in case commandEnd inp of
                None \<Rightarrow> (Inl ''Error: Command timed out after 300s'', emit [Kill p SIGTERM] a1)
              | Some (ErrorEvent msg) \<Rightarrow> (Inl msg, a1)
              | Some (Exited code out err) \<Rightarrow>
                  if code = Some 0 then (Inr out, a1) else (Inl (commandFailed code out err), a1)))"

text \<open>
  The handlers. A handler returns its response, or throws (\<open>Inl\<close>): a rejected
  \<^verbatim>\<open>parseBody\<close>, a property read on null, or a conversion that throws leaves the handler
  and reaches the \<^verbatim>\<open>catch\<close> of \<^verbatim>\<open>handleRequest\<close>.
\<close>

definition handleCreatePlan ::
  "Inputs \<Rightarrow> Request \<Rightarrow> 'x ApiServer \<Rightarrow> (string + Response) \<times> 'x ApiServer" where
  "handleCreatePlan inp req a =
     (case parsedBody req of
        Inl e \<Rightarrow> (Inl e, a)
      | Inr b \<Rightarrow>
          (case getProp b ''prompt'' of
             Inl e \<Rightarrow> (Inl e, a)
           | Inr prompt \<Rightarrow>
               (let dir = workDirOf (case getProp b ''workDir'' of Inl e \<Rightarrow> JUndefined | Inr v \<Rightarrow> v) a
                in if \<not> truthy prompt
                   then (Inr (errorResponse 400 ''Missing 'prompt' in request body''), a)
                   else if \<not> coercible dir
                   then (Inl ''TypeError: Cannot convert object to primitive value'', a)
                   else if (case prompt of JStr t \<Rightarrow> False | JArr xs \<Rightarrow> False | _ \<Rightarrow> True)
                   then (Inl ''TypeError: prompt.slice is not a function'', a)
                   else if \<not> coercible (case prompt of JArr xs \<Rightarrow> JArr (take 50 xs) | v \<Rightarrow> v)
                   then (Inl ''TypeError: Cannot convert object to primitive value'', a)
                   else if \<not> coercible prompt
                   then (Inl ''TypeError: Cannot convert object to primitive value'',
                         emit [Log (CreatingPlan dir prompt)] a)
                   else
                     (case runCommand inp (PlanCommand prompt) dir
                             (emit [Log (CreatingPlan dir prompt)] a) of
                        (Inr out, a1) \<Rightarrow>
                          (Inr (jsonResponse 200 (JObj [(''success'', JBool True), (''output'', JStr out)])),
                           emit [Log PlanCreated] a1)
                      | (Inl err, a1) \<Rightarrow>
                          (Inr (errorResponse 500 err), emit [Log (FailedToCreatePlan err)] a1)))))"

definition handleSavePlan ::
  "Inputs \<Rightarrow> Request \<Rightarrow> 'x ApiServer \<Rightarrow> (string + Response) \<times> 'x ApiServer" where
  "handleSavePlan inp req a =
     (case parsedBody req of
        Inl e \<Rightarrow> (Inl e, a)
      | Inr b \<Rightarrow>
          (case getProp b ''content'' of
             Inl e \<Rightarrow> (Inl e, a)
           | Inr content \<Rightarrow>
               (let dir = workDirOf (case getProp b ''workDir'' of Inl e \<Rightarrow> JUndefined | Inr v \<Rightarrow> v) a
                in if \<not> truthy content
                   then (Inr (errorResponse 400 ''Missing 'content' in request body''), a)
                   else if \<not> coercible dir
                   then (Inl ''TypeError: Cannot convert object to primitive value'', a)
                   else
                     (case saved inp of
                        Inr prdPath \<Rightarrow>
                          (Inr (jsonResponse 200 (JObj [(''success'', JBool True), (''path'', JStr prdPath)])),
                           emit [Log (SavingPRD dir), Log PRDSaved] a)
                      | Inl err \<Rightarrow>
                          (Inr (errorResponse 500 err),
                           emit [Log (SavingPRD dir), Log (FailedToSavePRD err)] a)))))"

text \<open>
  \<^verbatim>\<open>handleStartLoop\<close>. The test \<^verbatim>\<open>!iterations || iterations < 1\<close> converts the value to
  a number only when it is truthy. The loop's identifier is made from the clock.
\<close>

definition handleStartLoop ::
  "(jsval \<Rightarrow> jsnum) \<Rightarrow> Inputs \<Rightarrow> Request \<Rightarrow> 'x ApiServer \<Rightarrow>
   (string + Response) \<times> 'x ApiServer" where
  "handleStartLoop textToNumber inp req a =
     (case parsedBody req of
        Inl e \<Rightarrow> (Inl e, a)
      | Inr b \<Rightarrow>
          (case getProp b ''iterations'' of
             Inl e \<Rightarrow> (Inl e, a)
           | Inr its \<Rightarrow>
               (let dir = workDirOf (case getProp b ''workDir'' of Inl e \<Rightarrow> JUndefined | Inr v \<Rightarrow> v) a;
                    invalid = errorResponse 400
                      ''Missing or invalid 'iterations' in request body (must be >= 1)''
                in if \<not> truthy its then (Inr invalid, a)
                   else
                     (case toNumber textToNumber its of
                        Inl e \<Rightarrow> (Inl e, a)
                      | Inr n \<Rightarrow>
                          if num_lt n (Fin 1) then (Inr invalid, a)
                          else if \<not> coercible dir
                          then (Inl ''TypeError: Cannot convert object to primitive value'', a)
                          else
                            (let loopId = ''loop-'' @ showNat (dateNow inp)
                             in (Inr (jsonResponse 200
                                        (JObj [(''success'', JBool True), (''loopId'', JStr loopId),
                                               (''iterations'', its)])),
                                 startLoopProcess textToNumber inp loopId its dir
                                   (emit [Log (StartingLoop loopId its dir)] a)))))))"

definition statusText :: "LoopStatus \<Rightarrow> string" where
  "statusText st =
     (case st of Running \<Rightarrow> ''running'' | Completed \<Rightarrow> ''completed''
               | Failed \<Rightarrow> ''failed'' | Cancelled \<Rightarrow> ''cancelled'')"

definition loopSummary :: "LoopProcess \<Rightarrow> jsval" where
  "loopSummary loop =
     JObj [(''id'', JStr (loop_id loop)),
           (''iterations'', iterations loop),
           (''currentIteration'', JNum (Fin (of_nat (currentIteration loop)))),
           (''status'', JStr (statusText (status loop))),
           (''startedAt'', JStr (startedAt loop)),
           (''outputLines'', JNum (Fin (of_nat (length (loop_output loop))))),
           (''lastOutput'',
              JArr (map JStr (drop (length (loop_output loop) - 5) (loop_output loop))))]"

definition loopsOf :: "'x ApiServer \<Rightarrow> LoopProcess list" where
  "loopsOf a = concat (map (\<lambda>(k, r). case heap a r of None \<Rightarrow> [] | Some loop \<Rightarrow> [loop]) (activeLoops a))"

definition handleLoopStatus :: "'x ApiServer \<Rightarrow> Response" where
  "handleLoopStatus a = jsonResponse 200 (JObj [(''loops'', JArr (map loopSummary (loopsOf a)))])"

definition handleCancelLoop :: "Request \<Rightarrow> 'x ApiServer \<Rightarrow> (string + Response) \<times> 'x ApiServer" where
  "handleCancelLoop req a =
     (case parsedBody req of
        Inl e \<Rightarrow> (Inl e, a)
      | Inr b \<Rightarrow>
          (case getProp b ''loopId'' of
             Inl e \<Rightarrow> (Inl e, a)
           | Inr loopId \<Rightarrow>
               if \<not> truthy loopId
               then (Inr (errorResponse 400 ''Missing 'loopId' in request body''), a)
               else
                 (case (case loopId of JStr k \<Rightarrow> map_of (activeLoops a) k | _ \<Rightarrow> None) of
                    None \<Rightarrow> (Inr (errorResponse 404 ''Loop not found''), a)
                  | Some r \<Rightarrow>
                      (case heap a r of
                         None \<Rightarrow> (Inr (errorResponse 404 ''Loop not found''), a)
                       | Some loop \<Rightarrow>
                           (let k = (case loopId of JStr t \<Rightarrow> t | _ \<Rightarrow> []);
                                (loop', a') =
                                  (case process loop of
                                     Some p \<Rightarrow>
                                       if status loop = Running
                                       then (loop\<lparr>status := Cancelled\<rparr>,
                                             emit [Kill p SIGTERM, Log (CancelledLoop k)]
                                               (setLoop r (loop\<lparr>status := Cancelled\<rparr>) a))
                                       else (loop, a)
                                   | None \<Rightarrow> (loop, a))
                            in (Inr (jsonResponse 200
                                       (JObj [(''success'', JBool True), (''loopId'', loopId),
                                              (''status'', JStr (statusText (status loop')))])),
                                a'))))))"

text \<open>
  \<^verbatim>\<open>handleClearSessions\<close>: the callback, when one is configured, is awaited inside the
  \<^verbatim>\<open>try\<close> block; \<open>x\<close> is the state the callback works on.
\<close>

definition handleClearSessions :: "'x ApiServer \<Rightarrow> 'x \<Rightarrow> Response \<times> 'x ApiServer \<times> 'x" where
  "handleClearSessions a x =
     (let a1 = emit [Log ClearingAllSessions] a;
          ok = jsonResponse 200 (JObj [(''success'', JBool True)])
      in case onClearSessions a1 of
           None \<Rightarrow> (ok, a1, x)
         | Some callback \<Rightarrow>
             (case callback x of
                (Fulfilled, x') \<Rightarrow> (ok, a1, x')
              | (Rejected err, x') \<Rightarrow>
                  (errorResponse 500 err, emit [Log (FailedToClearSessions err)] a1, x')))"

text \<open>
  The \<^verbatim>\<open>try\<close> block of \<^verbatim>\<open>handleRequest\<close>: the request is routed on its method and path.
\<close>

definition handleRequest_try ::
  "(jsval \<Rightarrow> jsnum) \<Rightarrow> Inputs \<Rightarrow> Request \<Rightarrow> 'x ApiServer \<Rightarrow> 'x \<Rightarrow>
   (string + Response) \<times> 'x ApiServer \<times> 'x" where
  "handleRequest_try textToNumber inp req a x =
     (let m = httpMethod req; path = pathname req
      in if m = ''POST'' \<and> path = ''/api/plan/create''
         then (case handleCreatePlan inp req a of (r, b) \<Rightarrow> (r, b, x))
         else if m = ''POST'' \<and> path = ''/api/plan/save''
         then (case handleSavePlan inp req a of (r, b) \<Rightarrow> (r, b, x))
         else if m = ''POST'' \<and> path = ''/api/loop/start''
         then (case handleStartLoop textToNumber inp req a of (r, b) \<Rightarrow> (r, b, x))
         else if m = ''GET'' \<and> path = ''/api/loop/status''
         then (Inr (handleLoopStatus a), a, x)
         else if m = ''POST'' \<and> path = ''/api/loop/cancel''
         then (case handleCancelLoop req a of (r, b) \<Rightarrow> (r, b, x))
         else if m = ''POST'' \<and> path = ''/api/sessions/clear''
         then (case handleClearSessions a x of (r, b, y) \<Rightarrow> (Inr r, b, y))
         else (Inr (errorResponse 404 ''Not found''), a, x))"

text \<open>
  \<^verbatim>\<open>handleRequest\<close>: the CORS headers are set on every response; a preflight request is
  answered at once; what a handler throws is logged and answered with status 500.
\<close>

definition handleRequest ::
  "(jsval \<Rightarrow> jsnum) \<Rightarrow> Inputs \<Rightarrow> Request \<Rightarrow> 'x ApiServer \<Rightarrow> 'x \<Rightarrow>
   Response \<times> 'x ApiServer \<times> 'x" where
  "handleRequest textToNumber inp req a x =
     (if httpMethod req = ''OPTIONS''
      then (setCorsHeaders \<lparr>statusCode = 204, headers = [], payload = None\<rparr>, a, x)
      else
        (case handleRequest_try textToNumber inp req a x of
           (Inr response, a', x') \<Rightarrow> (setCorsHeaders response, a', x')
         | (Inl err, a', x') \<Rightarrow>
             (setCorsHeaders (errorResponse 500 err),
              emit [Log (ErrorHandling (pathname req) err)] a', x')))"

section \<open>The session daemon\<close>

subsection \<open>Configuration read from the environment\<close>

text \<open>
  \<^verbatim>\<open>process.env\<close> maps a variable's name to its text; an unset variable is undefined.
  The constants below are the module-level constants of the daemon's entry point, as
  functions of the environment. A NaN (\<open>None\<close>) number of hours gives a NaN maximum age.
\<close>

type_synonym env = "string \<Rightarrow> string option"

definition PORT :: "env \<Rightarrow> int option" where
  "PORT e = parseInt (nullish (e ''PORT'') ''4450'')"

definition API_PORT :: "env \<Rightarrow> int option" where
  "API_PORT e = parseInt (nullish (e ''API_PORT'') ''4451'')"

definition MAX_AGE_HOURS :: "env \<Rightarrow> int option" where
  "MAX_AGE_HOURS e = parseInt (nullish (e ''MAX_AGE_HOURS'') ''24'')"

definition MAX_AGE_MS :: "env \<Rightarrow> int option" where
  "MAX_AGE_MS e = map_option (\<lambda>h. h * 60 * 60 * 1000) (MAX_AGE_HOURS e)"

text \<open>The options object the entry point passes to \<^verbatim>\<open>new SessionWatcher(...)\<close>.\<close>

record SessionWatcherOptions =
  debounceMs :: int

definition main_watcherOptions :: SessionWatcherOptions where
  "main_watcherOptions = \<lparr>debounceMs = 300\<rparr>"

subsection \<open>Sessions, events and the recency filter\<close>

text \<open>
  The watcher's types are declared in a module that is not part of the sources at hand;
  the entry point reads \<^verbatim>\<open>session.status.lastActivityAt\<close>, \<^verbatim>\<open>session.cwd\<close> and
  \<^verbatim>\<open>session.sessionId\<close>. Both records are extensible: every other field of a session and
  of its status lives in the record's extension.
\<close>

record StatusResult =
  lastActivityAt :: string

record 'st SessionState =
  sessionId :: string
  cwd :: string
  status :: 'st

datatype SessionEventType = Created | Updated | Deleted

record 'sess SessionEvent =
  type :: SessionEventType
  session :: 'sess

datatype operation = Insert | Update | Delete

text \<open>
  \<^verbatim>\<open>isRecentSession\<close>. Its inputs besides the session are the clock reading
  \<^verbatim>\<open>Date.now()\<close> (milliseconds), the module constant \<^verbatim>\<open>MAX_AGE_MS\<close>, and the library
  function \<^verbatim>\<open>new Date(text).getTime()\<close>, which is NaN (\<open>None\<close>) on a text that is no date.
  A comparison with NaN on either side is false.
\<close>

definition isRecentSession ::
  "(string \<Rightarrow> int option) \<Rightarrow> int option \<Rightarrow> int \<Rightarrow>
   ('a StatusResult_scheme, 'b) SessionState_scheme \<Rightarrow> bool" where
  "isRecentSession getTime maxAgeMs now s =
     (case getTime (lastActivityAt (status s)) of
        None \<Rightarrow> False
      | Some lastActivity \<Rightarrow>
          (case maxAgeMs of None \<Rightarrow> False | Some m \<Rightarrow> now - lastActivity < m))"

subsection \<open>The composing process\<close>

text \<open>
  The stream server, the status formatter and the date parser are collaborators whose
  modules are not part of the sources at hand; the entry point is modelled over any
  behaviour they may have. \<open>'s\<close> is the stream server's state. An asynchronous method of
  the stream server returns how its promise settles and the server's new state.
\<close>

record ('s, 'a, 'm) Collaborators =
  getTime :: "string \<Rightarrow> int option"
  formatStatus :: "'a StatusResult_scheme \<Rightarrow> string"
  streamServer_start :: "'s \<Rightarrow> settled \<times> 's"
  getStreamUrl :: "'s \<Rightarrow> string"
  publishSession ::
    "'s \<Rightarrow> ('a StatusResult_scheme, 'm) SessionState_scheme \<Rightarrow> operation \<Rightarrow> settled \<times> 's"
  clearAllSessions :: "'s \<Rightarrow> settled \<times> 's"

text \<open>What the process writes to the console, one constructor for each message.\<close>

datatype ConsoleEntry =
    Banner "int option"
  | Urls string "int option"
  | SessionLine string string string string string
  | FailedToPublish string
  | FoundRecent nat nat
  | FailedToPublishInitial string
  | Ready
  | FatalError string

text \<open>
  The state of the process: the two servers, the console, the exit code once
  \<^verbatim>\<open>process.exit\<close> has run, and \<open>publishCalls\<close>, the history of the calls of
  \<^verbatim>\<open>streamServer.publishSession\<close> in the order they were made.
\<close>

record ('s, 'a, 'm) Daemon =
  streamServer :: 's
  apiServer :: "'s ApiServer"
  console :: "ConsoleEntry list"
  publishCalls :: "(('a StatusResult_scheme, 'm) SessionState_scheme \<times> operation) list"
  exitCode :: "nat option"

definition print :: "ConsoleEntry \<Rightarrow> ('s, 'a, 'm) Daemon \<Rightarrow> ('s, 'a, 'm) Daemon" where
  "print entry w = w\<lparr>console := console w @ [entry]\<rparr>"

text \<open>\<^verbatim>\<open>session.cwd.split("/").pop() || session.cwd\<close>.\<close>

definition dirName :: "string \<Rightarrow> string" where
  "dirName path =
     (let lastPart = rev (takeWhile (\<lambda>c. c \<noteq> CHR ''/'') (rev path))
      in if lastPart = [] then path else lastPart)"

text \<open>\<^verbatim>\<open>type.toUpperCase().slice(0, 3)\<close>.\<close>

definition typeTag :: "SessionEventType \<Rightarrow> string" where
  "typeTag ty = (case ty of Created \<Rightarrow> ''CRE'' | Updated \<Rightarrow> ''UPD'' | Deleted \<Rightarrow> ''DEL'')"

text \<open>\<^verbatim>\<open>type === "created" ? "insert" : type === "deleted" ? "delete" : "update"\<close>.\<close>

definition operationOf :: "SessionEventType \<Rightarrow> operation" where
  "operationOf ty = (if ty = Created then Insert else if ty = Deleted then Delete else Update)"

text \<open>
  The call of \<^verbatim>\<open>streamServer.publishSession\<close> inside its \<^verbatim>\<open>try\<close> block: a rejection is
  caught and written to the console with the given message.
\<close>

definition tryPublish ::
  "('s, 'a, 'm) Collaborators \<Rightarrow> (string \<Rightarrow> ConsoleEntry) \<Rightarrow>
   ('a StatusResult_scheme, 'm) SessionState_scheme \<Rightarrow> operation \<Rightarrow>
   ('s, 'a, 'm) Daemon \<Rightarrow> settled \<times> ('s, 'a, 'm) Daemon" where
  "tryPublish c message sess op w =
     (case publishSession c (streamServer w) sess op of
        (r, s') \<Rightarrow>
          (let w1 = w\<lparr>streamServer := s', publishCalls := publishCalls w @ [(sess, op)]\<rparr>
           in case r of
                Fulfilled \<Rightarrow> (Fulfilled, w1)
              | Rejected err \<Rightarrow> (Fulfilled, print (message err) w1)))"

text \<open>
  The handler of the watcher's \<^verbatim>\<open>session\<close> event. \<open>clockNow\<close> is the reading of
  \<^verbatim>\<open>Date.now()\<close> inside \<^verbatim>\<open>isRecentSession\<close>, \<open>timestamp\<close> the text of
  \<^verbatim>\<open>new Date().toLocaleTimeString()\<close>. The result says how the handler's promise settles.
\<close>

definition main_onSession ::
  "('s, 'a, 'm) Collaborators \<Rightarrow> int option \<Rightarrow> int \<Rightarrow> string \<Rightarrow>
   ('a StatusResult_scheme, 'm) SessionState_scheme SessionEvent \<Rightarrow>
   ('s, 'a, 'm) Daemon \<Rightarrow> settled \<times> ('s, 'a, 'm) Daemon" where
  "main_onSession c maxAgeMs clockNow timestamp ev w =
     (let ty = type ev; sess = session ev
      in if \<not> isRecentSession (getTime c) maxAgeMs clockNow sess \<and> ty \<noteq> Deleted
         then (Fulfilled, w)
         else
           (let w1 = print (SessionLine timestamp (typeTag ty) (take 8 (sessionId sess))
                              (dirName (cwd sess)) (formatStatus c (status sess))) w
            in tryPublish c FailedToPublish sess (operationOf ty) w1))"

text \<open>
  The events the watcher emits, each with the two clock readings of its handler, handled
  in the order they are emitted; the first handler whose promise rejects ends the run.
\<close>

fun main_onSessions ::
  "('s, 'a, 'm) Collaborators \<Rightarrow> int option \<Rightarrow>
   (int \<times> string \<times> ('a StatusResult_scheme, 'm) SessionState_scheme SessionEvent) list \<Rightarrow>
   ('s, 'a, 'm) Daemon \<Rightarrow> settled \<times> ('s, 'a, 'm) Daemon" where
  "main_onSessions c maxAgeMs [] w = (Fulfilled, w)"
| "main_onSessions c maxAgeMs ((clockNow, timestamp, ev) # evs) w =
     (case main_onSession c maxAgeMs clockNow timestamp ev w of
        (Fulfilled, w') \<Rightarrow> main_onSessions c maxAgeMs evs w'
      | (Rejected err, w') \<Rightarrow> (Rejected err, w'))"

text \<open>
  \<^verbatim>\<open>Array.from(allSessions.values()).filter(isRecentSession)\<close>: one pass over the
  sessions, each call reading the clock; \<open>clock k\<close> is the reading of call \<open>k\<close>.
\<close>

fun filterRecent ::
  "(string \<Rightarrow> int option) \<Rightarrow> int option \<Rightarrow> (nat \<Rightarrow> int) \<Rightarrow> nat \<Rightarrow>
   ('a StatusResult_scheme, 'm) SessionState_scheme list \<Rightarrow>
   ('a StatusResult_scheme, 'm) SessionState_scheme list" where
  "filterRecent gt maxAgeMs clock k [] = []"
| "filterRecent gt maxAgeMs clock k (s # ss) =
     (if isRecentSession gt maxAgeMs (clock k) s
      then s # filterRecent gt maxAgeMs clock (Suc k) ss
      else filterRecent gt maxAgeMs clock (Suc k) ss)"

text \<open>The \<^verbatim>\<open>for\<close> loop that publishes the recent sessions, each in its own \<^verbatim>\<open>try\<close> block.\<close>

fun publishEach ::
  "('s, 'a, 'm) Collaborators \<Rightarrow> ('a StatusResult_scheme, 'm) SessionState_scheme list \<Rightarrow>
   ('s, 'a, 'm) Daemon \<Rightarrow> settled \<times> ('s, 'a, 'm) Daemon" where
  "publishEach c [] w = (Fulfilled, w)"
| "publishEach c (s # ss) w =
     (case tryPublish c FailedToPublishInitial s Insert w of
        (Fulfilled, w') \<Rightarrow> publishEach c ss w'
      | (Rejected err, w') \<Rightarrow> (Rejected err, w'))"

text \<open>
  The part of \<^verbatim>\<open>main\<close> after \<^verbatim>\<open>await watcher.start()\<close>: \<open>allSessions\<close> are the values of
  the map \<^verbatim>\<open>watcher.getSessions()\<close> returns, in the map's order.
\<close>

definition main_publishInitial ::
  "('s, 'a, 'm) Collaborators \<Rightarrow> int option \<Rightarrow> (nat \<Rightarrow> int) \<Rightarrow>
   ('a StatusResult_scheme, 'm) SessionState_scheme list \<Rightarrow>
   ('s, 'a, 'm) Daemon \<Rightarrow> settled \<times> ('s, 'a, 'm) Daemon" where
  "main_publishInitial c maxAgeMs clock allSessions w =
     (let recentSessions = filterRecent (getTime c) maxAgeMs clock 0 allSessions
      in case publishEach c recentSessions
                (print (FoundRecent (length recentSessions) (length allSessions)) w) of
           (Fulfilled, w') \<Rightarrow> (Fulfilled, print Ready w')
         | (Rejected err, w') \<Rightarrow> (Rejected err, w'))"

text \<open>
  What happens around the process while it starts: the working directory, whether the
  API server's listener binds, how \<^verbatim>\<open>watcher.start()\<close> settles, the events the watcher
  emits while it starts, the sessions \<^verbatim>\<open>watcher.getSessions()\<close> holds afterwards, and
  the clock of the filtering pass.
\<close>

record ('a, 'm) Startup =
  processCwd :: string
  apiListened :: settled
  watcherStarted :: settled
  startEvents ::
    "(int \<times> string \<times> ('a StatusResult_scheme, 'm) SessionState_scheme SessionEvent) list"
  sessionsAfterStart :: "('a StatusResult_scheme, 'm) SessionState_scheme list"
  filterClock :: "nat \<Rightarrow> int"

text \<open>The options \<^verbatim>\<open>main\<close> constructs the API server with.\<close>

definition main_apiServerOptions ::
  "('s, 'a, 'm) Collaborators \<Rightarrow> env \<Rightarrow> 's ApiServerOptions" where
  "main_apiServerOptions c e =
     \<lparr>ApiServerOptions.port = Some (API_PORT e),
      ApiServerOptions.workDir = None,
      ApiServerOptions.onClearSessions = Some (\<lambda>s. clearAllSessions c s)\<rparr>"

text \<open>
  \<^verbatim>\<open>main\<close>, from the stream server \<open>s0\<close> it constructs. Each \<^verbatim>\<open>await\<close> of a start method
  that rejects makes \<^verbatim>\<open>main\<close> reject. The constructor of the API server has no effect, so
  the state holds the constructed object from the beginning, also when the stream server
  fails to start and the code never constructs it.
\<close>

definition main ::
  "('s, 'a, 'm) Collaborators \<Rightarrow> env \<Rightarrow> ('a, 'm) Startup \<Rightarrow> 's \<Rightarrow>
   settled \<times> ('s, 'a, 'm) Daemon" where
  "main c e su s0 =
     (let api0 = ApiServer_constructor (main_apiServerOptions c e) (processCwd su);
          w0 = \<lparr>streamServer = s0, apiServer = api0, console = [Banner (MAX_AGE_HOURS e)],
                publishCalls = [], exitCode = None\<rparr>
      in case streamServer_start c s0 of
           (Rejected err, s1) \<Rightarrow> (Rejected err, w0\<lparr>streamServer := s1\<rparr>)
         | (Fulfilled, s1) \<Rightarrow>
             (case start (apiListened su) api0 of
                (Rejected err, api1) \<Rightarrow> (Rejected err, w0\<lparr>streamServer := s1, apiServer := api1\<rparr>)
              | (Fulfilled, api1) \<Rightarrow>
                  (let w1 = print (Urls (getStreamUrl c s1) (API_PORT e))
                              (w0\<lparr>streamServer := s1, apiServer := api1\<rparr>)
                   in case main_onSessions c (MAX_AGE_MS e) (startEvents su) w1 of
                        (Rejected err, w2) \<Rightarrow> (Rejected err, w2)
                      | (Fulfilled, w2) \<Rightarrow>
                          (case watcherStarted su of
                             Rejected err \<Rightarrow> (Rejected err, w2)
                           | Fulfilled \<Rightarrow>
                               main_publishInitial c (MAX_AGE_MS e) (filterClock su)
                                 (sessionsAfterStart su) w2))))"

text \<open>
  The last statement of the module: \<^verbatim>\<open>main().catch(...)\<close> reports a rejection and exits
  with code 1.
\<close>

definition run ::
  "('s, 'a, 'm) Collaborators \<Rightarrow> env \<Rightarrow> ('a, 'm) Startup \<Rightarrow> 's \<Rightarrow> ('s, 'a, 'm) Daemon" where
  "run c e su s0 =
     (case main c e su s0 of
        (Fulfilled, w) \<Rightarrow> w
      | (Rejected err, w) \<Rightarrow> (print (FatalError err) w)\<lparr>exitCode := Some 1\<rparr>)"


section \<open>The dashboard\<close>

subsection \<open>The session schema\<close>

datatype SessionStatus = Working | Waiting | Idle

datatype CIStatus = Pending | CIRunning | Success | Failure | CICancelled | Unknown

datatype Role = User | Assistant | Tool

record PendingTool =
  tool :: string
  target :: string

record RecentOutput =
  role :: Role
  content :: string

record CICheck =
  name :: string
  status :: CIStatus
  url :: "string option"

record PRInfo =
  number :: real
  url :: string
  title :: string
  ciStatus :: CIStatus
  ciChecks :: "CICheck list"
  lastChecked :: string

record Session =
  sessionId :: string
  cwd :: string
  gitBranch :: "string option"
  gitRepoUrl :: "string option"
  gitRepoId :: "string option"
  originalPrompt :: string
  status :: SessionStatus
  lastActivityAt :: string
  messageCount :: real
  hasPendingToolUse :: bool
  pendingTool :: "PendingTool option"
  goal :: string
  summary :: string
  recentOutput :: "RecentOutput list"
  pr :: "PRInfo option"

subsection \<open>The effective status\<close>

definition IDLE_TIMEOUT_MS :: int where
  "IDLE_TIMEOUT_MS = 60 * 60 * 1000"

text \<open>
  \<^verbatim>\<open>getEffectiveStatus\<close>, over the clock reading \<^verbatim>\<open>Date.now()\<close> and the date parser. On a
  text that is no date the elapsed time is NaN and the comparison is false.
\<close>

definition getEffectiveStatus :: "(string \<Rightarrow> int option) \<Rightarrow> int \<Rightarrow> Session \<Rightarrow> SessionStatus" where
  "getEffectiveStatus gt clockNow s =
     (case gt (lastActivityAt s) of
        None \<Rightarrow> status s
      | Some t \<Rightarrow> if clockNow - t > IDLE_TIMEOUT_MS then Idle else status s)"

subsection \<open>Grouping by repository\<close>

definition STATUS_WEIGHTS :: "SessionStatus \<Rightarrow> real" where
  "STATUS_WEIGHTS st = (case st of Working \<Rightarrow> 100 | Waiting \<Rightarrow> 50 | Idle \<Rightarrow> 1)"

definition PENDING_TOOL_BONUS :: real where
  "PENDING_TOOL_BONUS = 30"

text \<open>
  \<^verbatim>\<open>calculateRepoActivityScore\<close>. Doubles are idealised as real numbers; NaN is \<open>None\<close>,
  and a sum with a NaN term is NaN.
\<close>

definition calculateRepoActivityScore ::
  "(string \<Rightarrow> int option) \<Rightarrow> int \<Rightarrow> Session list \<Rightarrow> real option" where
  "calculateRepoActivityScore gt clockNow ss =
     foldl
       (\<lambda>score s.
          case gt (lastActivityAt s) of
            None \<Rightarrow> None
          | Some t \<Rightarrow>
              (let ageMs = clockNow - t;
                   ageMinutes = real_of_int ageMs / (1000 * 60);
                   sessionScore = STATUS_WEIGHTS (status s)
                     + (if hasPendingToolUse s then PENDING_TOOL_BONUS else 0);
                   decayFactor = (1 / 2) powr (ageMinutes / 30)
               in map_option (\<lambda>sc. sc + sessionScore * decayFactor) score))
       (Some 0) ss"

record RepoGroup =
  repoId :: string
  repoUrl :: "string option"
  sessions :: "Session list"
  activityScore :: "real option"

text \<open>\<^verbatim>\<open>session.gitRepoId ?? "Other"\<close>.\<close>

definition groupKey :: "Session \<Rightarrow> string" where
  "groupKey s = nullish (gitRepoId s) ''Other''"

text \<open>
  The body of the grouping loop: the session is pushed on the array stored under its
  key, and the array is stored back. The map keeps its keys in the order they were
  first set.
\<close>

definition addSession :: "(string \<times> Session list) list \<Rightarrow> Session \<Rightarrow> (string \<times> Session list) list" where
  "addSession groups s =
     (let k = groupKey s;
          existing = nullish (map_of groups k) []
      in map_set k (existing @ [s]) groups)"

definition groupEntries :: "Session list \<Rightarrow> (string \<times> Session list) list" where
  "groupEntries ss = foldl addSession [] ss"

text \<open>
  The entries of the map become groups; the score of entry \<open>k\<close> is computed at the clock
  reading \<open>clock k\<close>, since each call of \<^verbatim>\<open>calculateRepoActivityScore\<close> reads the clock.
\<close>

definition toRepoGroup ::
  "(string \<Rightarrow> int option) \<Rightarrow> int \<Rightarrow> string \<times> Session list \<Rightarrow> RepoGroup" where
  "toRepoGroup gt clockNow entry =
     (case entry of
        (k, ss) \<Rightarrow>
          \<lparr>repoId = k,
           repoUrl = (if k = ''Other'' then None else Some (''https://github.com/'' @ k)),
           sessions = ss,
           activityScore = calculateRepoActivityScore gt clockNow ss\<rparr>)"

definition groupsWithScores ::
  "(string \<Rightarrow> int option) \<Rightarrow> (nat \<Rightarrow> int) \<Rightarrow> Session list \<Rightarrow> RepoGroup list" where
  "groupsWithScores gt clock ss =
     map (\<lambda>(entry, k). toRepoGroup gt (clock k) entry)
       (zip (groupEntries ss) [0..<length (groupEntries ss)])"

text \<open>
  \<^verbatim>\<open>groupsWithScores.sort((a, b) => b.activityScore - a.activityScore)\<close>. The sort is
  stable. The comparator is not called on fewer than two groups; a NaN difference counts
  as equal, so all groups compare equal when every score is NaN, and the order stays as
  it is. When some scores are NaN and others are not, the comparator is not consistent
  and the language leaves the order to the implementation: \<open>implementationOrder\<close> is what
  the implementation makes of the list then.
\<close>

definition sortGroups :: "(RepoGroup list \<Rightarrow> RepoGroup list) \<Rightarrow> RepoGroup list \<Rightarrow> RepoGroup list" where
  "sortGroups implementationOrder gs =
     (if length gs \<le> 1 \<or> list_all (\<lambda>g. activityScore g = None) gs then gs
      else if list_all (\<lambda>g. activityScore g \<noteq> None) gs
      then sort_key (\<lambda>g. - the (activityScore g)) gs
      else implementationOrder gs)"

definition groupSessionsByRepo ::
  "(RepoGroup list \<Rightarrow> RepoGroup list) \<Rightarrow> (string \<Rightarrow> int option) \<Rightarrow> (nat \<Rightarrow> int) \<Rightarrow>
   Session list \<Rightarrow> RepoGroup list" where
  "groupSessionsByRepo implementationOrder gt clock ss =
     sortGroups implementationOrder (groupsWithScores gt clock ss)"

section \<open>Notions used to state the properties\<close>

text \<open>
  An event passes the guard of the session handler: it is a deletion, or its session is
  recent at the handler's clock reading.
\<close>

definition passesFilter ::
  "(string \<Rightarrow> int option) \<Rightarrow> int option \<Rightarrow> int \<Rightarrow>
   ('a StatusResult_scheme, 'm) SessionState_scheme SessionEvent \<Rightarrow> bool" where
  "passesFilter gt maxAgeMs clockNow ev =
     (type ev = Deleted \<or> isRecentSession gt maxAgeMs clockNow (session ev))"

text \<open>
  How the stream server settles each call when the given sessions are published as
  inserts one after the other, from the state \<open>s\<close>.
\<close>

fun insertOutcomes ::
  "('s, 'a, 'm) Collaborators \<Rightarrow> ('a StatusResult_scheme, 'm) SessionState_scheme list \<Rightarrow>
   's \<Rightarrow> settled list" where
  "insertOutcomes c [] s = []"
| "insertOutcomes c (x # xs) s =
     (case publishSession c s x Insert of (r, s') \<Rightarrow> r # insertOutcomes c xs s')"

text \<open>The console entries that report the rejections among the given outcomes.\<close>

definition reported :: "(string \<Rightarrow> ConsoleEntry) \<Rightarrow> settled list \<Rightarrow> ConsoleEntry list" where
  "reported message rs =
     concat (map (\<lambda>r. case r of Fulfilled \<Rightarrow> [] | Rejected err \<Rightarrow> [message err]) rs)"

text \<open>
  The states the API server can be in: the state the constructor gives, and from there
  any sequence of starts, handled requests, ends of the spawned child of a suspended
  loop (with any outcome), and stops. Between two of these steps no code of the server
  runs, so they are the states a request handler or \<^verbatim>\<open>stop\<close> can find.
\<close>

inductive reachable :: "(jsval \<Rightarrow> jsnum) \<Rightarrow> 'x ApiServer \<Rightarrow> bool"
  for textToNumber :: "jsval \<Rightarrow> jsnum" where
  constructed: "reachable textToNumber (ApiServer_constructor options dir)"
| started: "reachable textToNumber a \<Longrightarrow> reachable textToNumber (snd (start listened a))"
| handled:
    "reachable textToNumber a \<Longrightarrow> handleRequest textToNumber inp req a x = (res, a', x') \<Longrightarrow>
     reachable textToNumber a'"
| childEnded:
    "reachable textToNumber a \<Longrightarrow>
     reachable textToNumber
       (runIterations_resume textToNumber spawnResult (runCommandWithProcess_settle e) r a)"
| stopped: "reachable textToNumber a \<Longrightarrow> reachable textToNumber (snd (stop closeCallbackRuns a))"

text \<open>
  The effects of cancelling the loops of the map \<open>entries\<close> as the store \<open>h\<close> holds them:
  for each running loop, the signal to its process and the log line.
\<close>

definition cancelEffects :: "(LoopRef \<Rightarrow> LoopProcess option) \<Rightarrow> (string \<times> LoopRef) list \<Rightarrow> Effect list" where
  "cancelEffects h entries =
     concat (map (\<lambda>(k, r).
        case h r of
          None \<Rightarrow> []
        | Some loop \<Rightarrow>
            (case process loop of
               None \<Rightarrow> []
             | Some p \<Rightarrow> if LoopProcess.status loop = Running
                         then [Kill p SIGTERM, Log (CancelledLoop k)] else [])) entries)"

text \<open>
  A loop object is within bounds when its number of iterations is truthy and converts to
  a number that is not below 1 and not below the loop's current iteration.
\<close>

definition withinBounds :: "(jsval \<Rightarrow> jsnum) \<Rightarrow> LoopProcess \<Rightarrow> bool" where
  "withinBounds textToNumber loop =
     (truthy (iterations loop)
      \<and> (case toNumber textToNumber (iterations loop) of
            Inl e \<Rightarrow> False
          | Inr n \<Rightarrow> \<not> num_lt n (Fin 1) \<and> \<not> num_lt n (Fin (of_nat (currentIteration loop)))))"

text \<open>
  The invariant of the server's store, with the loops at the references in \<open>R\<close>
  exempted from the last part: the references of the map are distinct and allocated, the
  allocated references are those below \<open>nextRef\<close>, every loop object is within bounds,
  and every running loop has a process.
\<close>

definition wellFormedExcept :: "(jsval \<Rightarrow> jsnum) \<Rightarrow> LoopRef set \<Rightarrow> 'x ApiServer \<Rightarrow> bool" where
  "wellFormedExcept textToNumber R a =
     (distinct (map snd (activeLoops a))
      \<and> (\<forall>r\<in>set (map snd (activeLoops a)). r < nextRef a)
      \<and> (\<forall>r. (heap a r \<noteq> None) = (r < nextRef a))
      \<and> (\<forall>r loop. heap a r = Some loop \<longrightarrow>
            withinBounds textToNumber loop
            \<and> (r \<notin> R \<longrightarrow> LoopProcess.status loop = Running \<longrightarrow> process loop \<noteq> None)))"

definition wellFormed :: "(jsval \<Rightarrow> jsnum) \<Rightarrow> 'x ApiServer \<Rightarrow> bool" where
  "wellFormed textToNumber a = wellFormedExcept textToNumber {} a"

text \<open>The comparison \<^verbatim>\<open>>=\<close> on scores: false when either side is NaN.\<close>

definition scoreGe :: "real option \<Rightarrow> real option \<Rightarrow> bool" where
  "scoreGe a b = (case a of None \<Rightarrow> False | Some x \<Rightarrow> (case b of None \<Rightarrow> False | Some y \<Rightarrow> x \<ge> y))"


section \<open>Sample inputs\<close>

text \<open>
  Concrete collaborators and sessions on which the properties are evaluated. The state
  of the sample stream server is the list of the records it has appended, each the
  identifier of the session and the operation; it rejects every publish of the session
  named \<open>bad\<close> and appends nothing for it; clearing empties the list.
\<close>

definition sampleTime :: "string \<Rightarrow> int option" where
  "sampleTime t =
     (if t = ''1970-01-01T00:00:00.000Z'' then Some 0
      else if t = ''1970-01-03T00:00:00.000Z'' then Some 172800000
      else None)"

definition sampleCollaborators :: "((string \<times> operation) list, unit, unit) Collaborators" where
  "sampleCollaborators =
     \<lparr>getTime = sampleTime,
      formatStatus = (\<lambda>st. ''working''),
      streamServer_start = (\<lambda>s. (Fulfilled, s)),
      getStreamUrl = (\<lambda>s. ''http://127.0.0.1:4450/sessions''),
      publishSession = (\<lambda>s x op.
         if SessionState.sessionId x = ''bad'' then (Rejected ''Error: storage exhausted'', s)
         else (Fulfilled, s @ [(SessionState.sessionId x, op)])),
      clearAllSessions = (\<lambda>s. (Fulfilled, []))\<rparr>"

definition sampleSession :: "string \<Rightarrow> string \<Rightarrow> StatusResult SessionState" where
  "sampleSession sid stamp =
     \<lparr>SessionState.sessionId = sid, SessionState.cwd = ''/home/u/project'',
      SessionState.status = \<lparr>StatusResult.lastActivityAt = stamp\<rparr>\<rparr>"

definition sampleDaemon :: "((string \<times> operation) list, unit, unit) Daemon" where
  "sampleDaemon =
     \<lparr>streamServer = [],
      apiServer = ApiServer_constructor (main_apiServerOptions sampleCollaborators (\<lambda>v. None)) ''/home/u'',
      console = [], publishCalls = [], exitCode = None\<rparr>"

definition sampleSessions :: "StatusResult SessionState list" where
  "sampleSessions =
     [sampleSession ''old'' ''1970-01-01T00:00:00.000Z'',
      sampleSession ''new'' ''1970-01-03T00:00:00.000Z'',
      sampleSession ''bad'' ''1970-01-03T00:00:00.000Z'',
      sampleSession ''last'' ''1970-01-03T00:00:00.000Z'']"

definition sampleStartup :: "(unit, unit) Startup" where
  "sampleStartup =
     \<lparr>processCwd = ''/home/u'', apiListened = Fulfilled, watcherStarted = Fulfilled,
      startEvents = [], sessionsAfterStart = sampleSessions,
      filterClock = (\<lambda>k. 172800000)\<rparr>"

text \<open>The sample sessions as update events, handled two days after the epoch.\<close>

definition sampleEvents :: "(int \<times> string \<times> StatusResult SessionState SessionEvent) list" where
  "sampleEvents = map (\<lambda>s. (172800000, ''12:00:00'', \<lparr>type = Updated, session = s\<rparr>)) sampleSessions"

text \<open>Sample dashboard sessions: identifier, repository, stored status, last activity.\<close>

definition sampleRow :: "string \<Rightarrow> string option \<Rightarrow> SessionStatus \<Rightarrow> string \<Rightarrow> Session" where
  "sampleRow sid repo st stamp =
     \<lparr>sessionId = sid, cwd = ''/home/u/project'', gitBranch = None, gitRepoUrl = None,
      gitRepoId = repo, originalPrompt = ''fix the build'', status = st,
      lastActivityAt = stamp, messageCount = 3, hasPendingToolUse = False,
      pendingTool = None, goal = [], summary = [], recentOutput = [], pr = None\<rparr>"

definition sampleRows :: "Session list" where
  "sampleRows =
     [sampleRow ''s1'' None Idle ''1970-01-03T00:00:00.000Z'',
      sampleRow ''s2'' (Some ''acme/tool'') Working ''1970-01-03T00:00:00.000Z'',
      sampleRow ''s3'' (Some ''acme/tool'') Waiting ''1970-01-03T00:00:00.000Z'']"

text \<open>
  Sample dashboard sessions whose last activity is not a date, in two repositories, and
  one such session between an idle session and a working session that are active now,
  in three repositories.
\<close>

definition sampleUndated :: "Session list" where
  "sampleUndated =
     [sampleRow ''u1'' (Some ''acme/tool'') Working ''not a date'',
      sampleRow ''u2'' None Working ''not a date'']"

definition sampleMixed :: "Session list" where
  "sampleMixed =
     [sampleRow ''s1'' None Idle ''1970-01-03T00:00:00.000Z'',
      sampleRow ''u1'' (Some ''acme/tool'') Working ''not a date'',
      sampleRow ''s2'' (Some ''acme/web'') Working ''1970-01-03T00:00:00.000Z'']"

text \<open>
  A sample API server whose callback counts its calls, a body that asks for three
  iterations, and inputs under which \<^verbatim>\<open>spawn\<close> returns the child 4242.
\<close>

definition sampleApi :: "nat ApiServer" where
  "sampleApi =
     ApiServer_constructor
       \<lparr>ApiServerOptions.port = None, ApiServerOptions.workDir = None,
        ApiServerOptions.onClearSessions = Some (\<lambda>n. (Fulfilled, Suc n))\<rparr> ''/home/u''"


definition sampleInputs :: Inputs where
  "sampleInputs =
     \<lparr>dateNow = 7, dateIso = ''1970-01-01T00:00:00.007Z'', spawned = Inr 4242,
      commandEnd = Some (Exited (Some 0) ''done'' []), saved = Inr ''/home/u/PRD.md''\<rparr>"

definition post :: "string \<Rightarrow> jsval \<Rightarrow> Request" where
  "post path b = \<lparr>httpMethod = ''POST'', pathname = path, parsedBody = Inr b\<rparr>"

text \<open>
  The sample server after a request to start a loop of three iterations, the loop object
  it then holds, and the server after \<^verbatim>\<open>stop\<close> has cancelled that loop.
\<close>

definition sampleRunning :: "nat ApiServer" where
  "sampleRunning =
     fst (snd (handleRequest (\<lambda>v. NaN) sampleInputs
                 (post ''/api/loop/start'' (JObj [(''iterations'', JNum (Fin 3))])) sampleApi 0))"

definition sampleLoop :: LoopProcess where
  "sampleLoop =
     \<lparr>loop_id = ''loop-7'', process = Some 4242, iterations = JNum (Fin 3),
      currentIteration = 1, status = Running, loop_output = [],
      startedAt = ''1970-01-01T00:00:00.007Z''\<rparr>"


section \<open>Properties of the session daemon\<close>

subsection \<open>Auxiliary facts\<close>

lemma isRecentSession_iff:
  "isRecentSession gt m clockNow s \<longleftrightarrow>
     (\<exists>t mx. gt (StatusResult.lastActivityAt (SessionState.status s)) = Some t \<and> m = Some mx \<and> clockNow - t < mx)"
  by (auto simp: isRecentSession_def split: option.splits)

lemma parseInt_24: "parseInt ''24'' = Some 24"
  by (simp add: parseInt_def isWhiteSpace_def isDigit_def digitsValue_def digitValue_def)

lemma tryPublish_calls:
  "publishCalls (snd (tryPublish c msg sess op w)) = publishCalls w @ [(sess, op)]"
  by (simp add: tryPublish_def print_def Let_def split: prod.splits settled.splits)

lemma tryPublish_fst: "fst (tryPublish c msg sess op w) = Fulfilled"
  by (auto simp: tryPublish_def Let_def split: prod.splits settled.splits)

lemma tryPublish_stream:
  "streamServer (snd (tryPublish c msg sess op w)) = snd (publishSession c (streamServer w) sess op)"
  by (simp add: tryPublish_def print_def Let_def split: prod.splits settled.splits)

lemma tryPublish_console:
  "console (snd (tryPublish c msg sess op w)) =
     console w @ reported msg [fst (publishSession c (streamServer w) sess op)]"
  by (simp add: tryPublish_def print_def Let_def reported_def split: prod.splits settled.splits)

lemma tryPublish_exitCode: "exitCode (snd (tryPublish c msg sess op w)) = exitCode w"
  by (simp add: tryPublish_def print_def Let_def split: prod.splits settled.splits)


lemma onSession_fst: "fst (main_onSession c m clockNow ts ev w) = Fulfilled"
  by (simp add: main_onSession_def Let_def tryPublish_fst)

lemma onSession_calls:
  "publishCalls (snd (main_onSession c m clockNow ts ev w)) =
     publishCalls w @
       (if passesFilter (getTime c) m clockNow ev then [(session ev, operationOf (type ev))] else [])"
  by (simp add: main_onSession_def Let_def tryPublish_calls print_def passesFilter_def)

lemma onSession_stream:
  "streamServer (snd (main_onSession c m clockNow ts ev w)) =
     (if passesFilter (getTime c) m clockNow ev
      then snd (publishSession c (streamServer w) (session ev) (operationOf (type ev)))
      else streamServer w)"
  by (simp add: main_onSession_def Let_def tryPublish_stream print_def passesFilter_def)

lemma onSession_exitCode: "exitCode (snd (main_onSession c m clockNow ts ev w)) = exitCode w"
  by (simp add: main_onSession_def Let_def tryPublish_exitCode print_def)

lemma onSession_console:
  "console (snd (main_onSession c m clockNow ts ev w)) =
     console w @
       (if passesFilter (getTime c) m clockNow ev
        then SessionLine ts (typeTag (type ev)) (take 8 (SessionState.sessionId (session ev)))
               (dirName (SessionState.cwd (session ev))) (formatStatus c (SessionState.status (session ev)))
             # reported FailedToPublish
                 [fst (publishSession c (streamServer w) (session ev) (operationOf (type ev)))]
        else [])"
  by (simp add: main_onSession_def Let_def tryPublish_console print_def passesFilter_def)

lemma onSessions_fst: "fst (main_onSessions c m evs w) = Fulfilled"
proof (induction evs arbitrary: w)
  case Nil
  then show ?case by simp
next
  case (Cons x evs)
  obtain t ts ev where x: "x = (t, ts, ev)" by (cases x)
  obtain r w' where h: "main_onSession c m t ts ev w = (r, w')"
    by (cases "main_onSession c m t ts ev w")
  have r: "r = Fulfilled" using onSession_fst[of c m t ts ev w] h by simp
  show ?case using Cons.IH[of w'] by (simp add: x h r)
qed

lemma onSessions_calls:
  "publishCalls (snd (main_onSessions c m evs w)) =
     publishCalls w @
       map (\<lambda>(t, ts, ev). (session ev, operationOf (type ev)))
         (filter (\<lambda>(t, ts, ev). passesFilter (getTime c) m t ev) evs)"
proof (induction evs arbitrary: w)
  case Nil
  then show ?case by simp
next
  case (Cons x evs)
  obtain t ts ev where x: "x = (t, ts, ev)" by (cases x)
  obtain r w' where h: "main_onSession c m t ts ev w = (r, w')"
    by (cases "main_onSession c m t ts ev w")
  have r: "r = Fulfilled" using onSession_fst[of c m t ts ev w] h by simp
  have w': "publishCalls w' = publishCalls w @
       (if passesFilter (getTime c) m t ev then [(session ev, operationOf (type ev))] else [])"
    using onSession_calls[of c m t ts ev w] h by simp
  show ?case using Cons.IH[of w'] by (simp add: x h r w')
qed

lemma onSessions_stream:
  "streamServer (snd (main_onSessions c m evs w)) =
     foldl (\<lambda>s (t, ts, ev). snd (publishSession c s (session ev) (operationOf (type ev))))
       (streamServer w) (filter (\<lambda>(t, ts, ev). passesFilter (getTime c) m t ev) evs)"
proof (induction evs arbitrary: w)
  case Nil
  then show ?case by simp
next
  case (Cons x evs)
  obtain t ts ev where x: "x = (t, ts, ev)" by (cases x)
  obtain r w' where h: "main_onSession c m t ts ev w = (r, w')"
    by (cases "main_onSession c m t ts ev w")
  have r: "r = Fulfilled" using onSession_fst[of c m t ts ev w] h by simp
  have w': "streamServer w' =
     (if passesFilter (getTime c) m t ev
      then snd (publishSession c (streamServer w) (session ev) (operationOf (type ev)))
      else streamServer w)"
    using onSession_stream[of c m t ts ev w] h by simp
  show ?case using Cons.IH[of w'] by (simp add: x h r w')
qed

lemma onSessions_exitCode: "exitCode (snd (main_onSessions c m evs w)) = exitCode w"
proof (induction evs arbitrary: w)
  case Nil
  then show ?case by simp
next
  case (Cons x evs)
  obtain t ts ev where x: "x = (t, ts, ev)" by (cases x)
  obtain r w' where h: "main_onSession c m t ts ev w = (r, w')"
    by (cases "main_onSession c m t ts ev w")
  have r: "r = Fulfilled" using onSession_fst[of c m t ts ev w] h by simp
  have w': "exitCode w' = exitCode w"
    using onSession_exitCode[of c m t ts ev w] h by simp
  show ?case using Cons.IH[of w'] by (simp add: x h r w')
qed

lemma filterRecent_zip:
  "filterRecent gt m clock k ss =
     map fst (filter (\<lambda>(s, i). isRecentSession gt m (clock i) s) (zip ss [k..<k + length ss]))"
proof (induction ss arbitrary: k)
  case Nil
  then show ?case by simp
next
  case (Cons s ss)
  have up: "[k..<k + length (s # ss)] = k # [Suc k..<Suc k + length ss]"
    using upt_conv_Cons[of k "k + length (s # ss)"] by simp
  show ?case
    unfolding up by (simp add: Cons.IH del: upt_Suc)
qed

lemma filterRecent_constant_clock:
  "filterRecent gt m (\<lambda>k. t) k ss = filter (isRecentSession gt m t) ss"
  by (induction ss arbitrary: k) auto

lemma publishEach_fst: "fst (publishEach c ss w) = Fulfilled"
proof (induction ss arbitrary: w)
  case Nil
  then show ?case by simp
next
  case (Cons s ss)
  obtain r w' where t: "tryPublish c FailedToPublishInitial s Insert w = (r, w')"
    by (cases "tryPublish c FailedToPublishInitial s Insert w")
  have r: "r = Fulfilled" using tryPublish_fst[of c FailedToPublishInitial s Insert w] t by simp
  show ?case using Cons.IH[of w'] by (simp add: t r)
qed

lemma publishEach_calls:
  "publishCalls (snd (publishEach c ss w)) = publishCalls w @ map (\<lambda>s. (s, Insert)) ss"
proof (induction ss arbitrary: w)
  case Nil
  then show ?case by simp
next
  case (Cons s ss)
  obtain r w' where t: "tryPublish c FailedToPublishInitial s Insert w = (r, w')"
    by (cases "tryPublish c FailedToPublishInitial s Insert w")
  have r: "r = Fulfilled" using tryPublish_fst[of c FailedToPublishInitial s Insert w] t by simp
  have w': "publishCalls w' = publishCalls w @ [(s, Insert)]"
    using tryPublish_calls[of c FailedToPublishInitial s Insert w] t by simp
  show ?case using Cons.IH[of w'] by (simp add: t r w')
qed

lemma publishEach_stream:
  "streamServer (snd (publishEach c ss w)) =
     foldl (\<lambda>s x. snd (publishSession c s x Insert)) (streamServer w) ss"
proof (induction ss arbitrary: w)
  case Nil
  then show ?case by simp
next
  case (Cons s ss)
  obtain r w' where t: "tryPublish c FailedToPublishInitial s Insert w = (r, w')"
    by (cases "tryPublish c FailedToPublishInitial s Insert w")
  have r: "r = Fulfilled" using tryPublish_fst[of c FailedToPublishInitial s Insert w] t by simp
  have w': "streamServer w' = snd (publishSession c (streamServer w) s Insert)"
    using tryPublish_stream[of c FailedToPublishInitial s Insert w] t by simp
  show ?case using Cons.IH[of w'] by (simp add: t r w')
qed

lemma publishEach_exitCode: "exitCode (snd (publishEach c ss w)) = exitCode w"
proof (induction ss arbitrary: w)
  case Nil
  then show ?case by simp
next
  case (Cons s ss)
  obtain r w' where t: "tryPublish c FailedToPublishInitial s Insert w = (r, w')"
    by (cases "tryPublish c FailedToPublishInitial s Insert w")
  have r: "r = Fulfilled" using tryPublish_fst[of c FailedToPublishInitial s Insert w] t by simp
  have w': "exitCode w' = exitCode w"
    using tryPublish_exitCode[of c FailedToPublishInitial s Insert w] t by simp
  show ?case using Cons.IH[of w'] by (simp add: t r w')
qed

lemma publishEach_console:
  "console (snd (publishEach c ss w)) =
     console w @ reported FailedToPublishInitial (insertOutcomes c ss (streamServer w))"
proof (induction ss arbitrary: w)
  case Nil
  then show ?case by (simp add: reported_def)
next
  case (Cons s ss)
  obtain r w' where t: "tryPublish c FailedToPublishInitial s Insert w = (r, w')"
    by (cases "tryPublish c FailedToPublishInitial s Insert w")
  obtain q s' where p: "publishSession c (streamServer w) s Insert = (q, s')"
    by (cases "publishSession c (streamServer w) s Insert")
  have r: "r = Fulfilled" using tryPublish_fst[of c FailedToPublishInitial s Insert w] t by simp
  have w1: "console w' = console w @ reported FailedToPublishInitial [q]"
    using tryPublish_console[of c FailedToPublishInitial s Insert w] t p by simp
  have w2: "streamServer w' = s'"
    using tryPublish_stream[of c FailedToPublishInitial s Insert w] t p by simp
  show ?case using Cons.IH[of w'] by (simp add: t r w1 w2 p reported_def)
qed

lemma publishInitial_fst: "fst (main_publishInitial c m clock ss w) = Fulfilled"
proof -
  let ?rs = "filterRecent (getTime c) m clock 0 ss"
  let ?w1 = "print (FoundRecent (length ?rs) (length ss)) w"
  obtain r w' where h: "publishEach c ?rs ?w1 = (r, w')" by (cases "publishEach c ?rs ?w1")
  have "r = Fulfilled" using publishEach_fst[of c ?rs ?w1] h by simp
  then show ?thesis by (simp add: main_publishInitial_def Let_def h)
qed

lemma publishInitial_snd:
  "snd (main_publishInitial c m clock ss w) =
     print Ready (snd (publishEach c (filterRecent (getTime c) m clock 0 ss)
        (print (FoundRecent (length (filterRecent (getTime c) m clock 0 ss)) (length ss)) w)))"
proof -
  let ?rs = "filterRecent (getTime c) m clock 0 ss"
  let ?w1 = "print (FoundRecent (length ?rs) (length ss)) w"
  obtain r w' where h: "publishEach c ?rs ?w1 = (r, w')" by (cases "publishEach c ?rs ?w1")
  have "r = Fulfilled" using publishEach_fst[of c ?rs ?w1] h by simp
  then show ?thesis by (simp add: main_publishInitial_def Let_def h)
qed

lemma publishInitial_calls:
  "publishCalls (snd (main_publishInitial c m clock ss w)) =
     publishCalls w @ map (\<lambda>s. (s, Insert)) (filterRecent (getTime c) m clock 0 ss)"
  by (simp add: publishInitial_snd publishEach_calls print_def)

lemma publishInitial_stream:
  "streamServer (snd (main_publishInitial c m clock ss w)) =
     foldl (\<lambda>s x. snd (publishSession c s x Insert)) (streamServer w)
       (filterRecent (getTime c) m clock 0 ss)"
  by (simp add: publishInitial_snd publishEach_stream print_def)

lemma publishInitial_console:
  "console (snd (main_publishInitial c m clock ss w)) =
     console w @ [FoundRecent (length (filterRecent (getTime c) m clock 0 ss)) (length ss)]
       @ reported FailedToPublishInitial
           (insertOutcomes c (filterRecent (getTime c) m clock 0 ss) (streamServer w))
       @ [Ready]"
  by (simp add: publishInitial_snd publishEach_console print_def)

lemma publishInitial_exitCode:
  "exitCode (snd (main_publishInitial c m clock ss w)) = exitCode w"
  by (simp add: publishInitial_snd publishEach_exitCode print_def)

lemma start_fst: "fst (start l a) = l"
  by (simp add: start_def split: settled.splits)

lemma main_result:
  "fst (main c e su s0) =
     (case fst (streamServer_start c s0) of
        Rejected err \<Rightarrow> Rejected err
      | Fulfilled \<Rightarrow>
          (case apiListened su of
             Rejected err \<Rightarrow> Rejected err
           | Fulfilled \<Rightarrow> watcherStarted su))
   \<and> exitCode (snd (main c e su s0)) = None"
proof -
  obtain r1 s1 where a: "streamServer_start c s0 = (r1, s1)"
    by (cases "streamServer_start c s0")
  let ?api0 = "ApiServer_constructor (main_apiServerOptions c e) (processCwd su)"
  obtain api1 where b: "start (apiListened su) ?api0 = (apiListened su, api1)"
    using start_fst[of "apiListened su" ?api0] by (cases "start (apiListened su) ?api0") simp
  let ?w0 = "\<lparr>streamServer = s0, apiServer = ?api0, console = [Banner (MAX_AGE_HOURS e)],
                publishCalls = [], exitCode = None\<rparr>"
  let ?w1 = "print (Urls (getStreamUrl c s1) (API_PORT e))
               \<lparr>streamServer = s1, apiServer = api1, console = [Banner (MAX_AGE_HOURS e)],
                publishCalls = [], exitCode = None\<rparr>"
  obtain r3 w2 where d: "main_onSessions c (MAX_AGE_MS e) (startEvents su) ?w1 = (r3, w2)"
    by (cases "main_onSessions c (MAX_AGE_MS e) (startEvents su) ?w1")
  have r3: "r3 = Fulfilled"
    using onSessions_fst[of c "MAX_AGE_MS e" "startEvents su" ?w1] d by simp
  have x2: "exitCode w2 = None"
    using onSessions_exitCode[of c "MAX_AGE_MS e" "startEvents su" ?w1] d by (simp add: print_def)
  let ?fin = "main_publishInitial c (MAX_AGE_MS e) (filterClock su) (sessionsAfterStart su) w2"
  have f1: "fst ?fin = Fulfilled" by (rule publishInitial_fst)
  have f2: "exitCode (snd ?fin) = None" by (simp add: publishInitial_exitCode x2)
  have m: "main c e su s0 =
      (case r1 of
         Rejected err \<Rightarrow> (Rejected err, ?w0\<lparr>streamServer := s1\<rparr>)
       | Fulfilled \<Rightarrow>
          (case apiListened su of
             Rejected err \<Rightarrow> (Rejected err, ?w0\<lparr>streamServer := s1, apiServer := api1\<rparr>)
           | Fulfilled \<Rightarrow>
              (case watcherStarted su of Rejected err \<Rightarrow> (Rejected err, w2) | Fulfilled \<Rightarrow> ?fin)))"
    by (simp add: main_def Let_def a b d r3 split: settled.splits)
  show ?thesis
    unfolding m using f1 f2 x2 by (simp add: a split: settled.splits)
qed

lemma run_exitCode:
  "exitCode (run c e su s0) =
     (if fst (streamServer_start c s0) = Fulfilled \<and> apiListened su = Fulfilled
         \<and> watcherStarted su = Fulfilled
      then None else Some 1)"
proof -
  obtain r w where m: "main c e su s0 = (r, w)" by (cases "main c e su s0")
  have r: "r = (case fst (streamServer_start c s0) of
        Rejected err \<Rightarrow> Rejected err
      | Fulfilled \<Rightarrow>
          (case apiListened su of
             Rejected err \<Rightarrow> Rejected err
           | Fulfilled \<Rightarrow> watcherStarted su))"
    and w: "exitCode w = None"
    using main_result[of c e su s0] m by simp_all
  show ?thesis
    by (cases r) (use r w in \<open>auto simp: run_def m print_def split: settled.splits\<close>)
qed

subsection \<open>The recency filter and the session handler\<close>

text \<open>
  Claim C1. The handler of a session event publishes the session to the stream exactly
  when the event is a deletion or the session is recent at the time of handling. For a
  deletion, however old the session is, it calls \<^verbatim>\<open>publishSession\<close> once with operation
  delete, and the stream server is left in the state that call gives; for a created or
  updated event of a recent session it calls \<^verbatim>\<open>publishSession\<close> once with insert or
  update, and the stream server is left in the state that call gives; otherwise it makes
  no call and the stream server is as it was. A session is recent exactly when its last
  activity parses to a time \<open>t\<close>, the maximum age is a number \<open>mx\<close>, and \<open>now - t < mx\<close>.
\<close>

theorem onSession_publishes_iff_recent_or_deleted:
  "publishCalls (snd (main_onSession c m clockNow ts ev w)) =
     publishCalls w @
       (if type ev = Deleted then [(session ev, Delete)]
        else if isRecentSession (getTime c) m clockNow (session ev)
             then [(session ev, if type ev = Created then Insert else Update)]
             else [])
   \<and> streamServer (snd (main_onSession c m clockNow ts ev w)) =
       (if type ev = Deleted
        then snd (publishSession c (streamServer w) (session ev) Delete)
        else if isRecentSession (getTime c) m clockNow (session ev)
             then snd (publishSession c (streamServer w) (session ev)
                         (if type ev = Created then Insert else Update))
             else streamServer w)
   \<and> (isRecentSession (getTime c) m clockNow (session ev) \<longleftrightarrow>
        (\<exists>t mx. getTime c (StatusResult.lastActivityAt (SessionState.status (session ev))) = Some t
                 \<and> m = Some mx \<and> clockNow - t < mx))"
proof -
  have calls: "publishCalls (snd (main_onSession c m clockNow ts ev w)) =
     publishCalls w @
       (if type ev = Deleted then [(session ev, Delete)]
        else if isRecentSession (getTime c) m clockNow (session ev)
             then [(session ev, if type ev = Created then Insert else Update)]
             else [])"
    by (simp add: onSession_calls passesFilter_def operationOf_def)
  have stream: "streamServer (snd (main_onSession c m clockNow ts ev w)) =
       (if type ev = Deleted
        then snd (publishSession c (streamServer w) (session ev) Delete)
        else if isRecentSession (getTime c) m clockNow (session ev)
             then snd (publishSession c (streamServer w) (session ev)
                         (if type ev = Created then Insert else Update))
             else streamServer w)"
    by (simp add: onSession_stream passesFilter_def operationOf_def)
  show ?thesis
    using calls stream isRecentSession_iff[of "getTime c" m clockNow "session ev"] by blast
qed

text \<open>
  Claim C1 on sample inputs, two days after the epoch with a maximum age of one day: the
  deletion of a session last active at the epoch is published and its delete record
  reaches the stream, its update is not published and the stream stays empty, and the
  update of a session active now is published and its update record reaches the stream.
\<close>

theorem onSession_publishes_iff_recent_or_deleted_witness:
  "publishCalls (snd (main_onSession sampleCollaborators (Some 86400000) 172800000 ''12:00:00''
       \<lparr>type = Deleted, session = sampleSession ''old'' ''1970-01-01T00:00:00.000Z''\<rparr> sampleDaemon))
     = [(sampleSession ''old'' ''1970-01-01T00:00:00.000Z'', Delete)]
   \<and> streamServer (snd (main_onSession sampleCollaborators (Some 86400000) 172800000 ''12:00:00''
       \<lparr>type = Deleted, session = sampleSession ''old'' ''1970-01-01T00:00:00.000Z''\<rparr> sampleDaemon))
     = [(''old'', Delete)]
   \<and> publishCalls (snd (main_onSession sampleCollaborators (Some 86400000) 172800000 ''12:00:00''
       \<lparr>type = Updated, session = sampleSession ''old'' ''1970-01-01T00:00:00.000Z''\<rparr> sampleDaemon))
     = []
   \<and> streamServer (snd (main_onSession sampleCollaborators (Some 86400000) 172800000 ''12:00:00''
       \<lparr>type = Updated, session = sampleSession ''old'' ''1970-01-01T00:00:00.000Z''\<rparr> sampleDaemon))
     = []
   \<and> publishCalls (snd (main_onSession sampleCollaborators (Some 86400000) 172800000 ''12:00:00''
       \<lparr>type = Updated, session = sampleSession ''new'' ''1970-01-03T00:00:00.000Z''\<rparr> sampleDaemon))
     = [(sampleSession ''new'' ''1970-01-03T00:00:00.000Z'', Update)]
   \<and> streamServer (snd (main_onSession sampleCollaborators (Some 86400000) 172800000 ''12:00:00''
       \<lparr>type = Updated, session = sampleSession ''new'' ''1970-01-03T00:00:00.000Z''\<rparr> sampleDaemon))
     = [(''new'', Update)]"
  using onSession_publishes_iff_recent_or_deleted[of sampleCollaborators "Some 86400000" 172800000 "''12:00:00''"
          "\<lparr>type = Deleted, session = sampleSession ''old'' ''1970-01-01T00:00:00.000Z''\<rparr>" sampleDaemon]
        onSession_publishes_iff_recent_or_deleted[of sampleCollaborators "Some 86400000" 172800000 "''12:00:00''"
          "\<lparr>type = Updated, session = sampleSession ''old'' ''1970-01-01T00:00:00.000Z''\<rparr>" sampleDaemon]
        onSession_publishes_iff_recent_or_deleted[of sampleCollaborators "Some 86400000" 172800000 "''12:00:00''"
          "\<lparr>type = Updated, session = sampleSession ''new'' ''1970-01-03T00:00:00.000Z''\<rparr>" sampleDaemon]
  by (simp add: sampleDaemon_def sampleCollaborators_def sampleTime_def sampleSession_def
        isRecentSession_def)

text \<open>
  Claim C3. Two sessions that agree on \<^verbatim>\<open>status.lastActivityAt\<close> get the same answer from
  \<^verbatim>\<open>isRecentSession\<close> at the same clock reading and maximum age, whatever their other
  fields (the extensions of the two records included) are.
\<close>

theorem isRecentSession_noninterference: "StatusResult.lastActivityAt (SessionState.status s1) = StatusResult.lastActivityAt (SessionState.status s2)
   \<Longrightarrow> isRecentSession gt m clockNow s1 = isRecentSession gt m clockNow s2"
  by (simp add: isRecentSession_def)

text \<open>Claim C3 on two sample sessions that differ in identifier and working directory.\<close>

theorem isRecentSession_noninterference_witness:
  "isRecentSession sampleTime (Some 86400000) 172800000 (sampleSession ''one'' ''1970-01-03T00:00:00.000Z'')
   = isRecentSession sampleTime (Some 86400000) 172800000
       ((sampleSession ''two'' ''1970-01-03T00:00:00.000Z'')\<lparr>SessionState.cwd := ''/elsewhere''\<rparr>)
   \<and> sampleSession ''one'' ''1970-01-03T00:00:00.000Z''
       \<noteq> (sampleSession ''two'' ''1970-01-03T00:00:00.000Z'')\<lparr>SessionState.cwd := ''/elsewhere''\<rparr>"
  using isRecentSession_noninterference[of "sampleSession ''one'' ''1970-01-03T00:00:00.000Z''"
              "(sampleSession ''two'' ''1970-01-03T00:00:00.000Z'')\<lparr>SessionState.cwd := ''/elsewhere''\<rparr>"
              sampleTime "Some 86400000" 172800000]
  by (simp add: sampleSession_def)

subsection \<open>Startup\<close>

text \<open>
  Claim C2. After \<^verbatim>\<open>watcher.start()\<close> the process publishes one insert for each session
  of \<^verbatim>\<open>watcher.getSessions()\<close> that is recent at the clock reading of its test, in the
  order of the map, and nothing for the others: the calls of \<^verbatim>\<open>publishSession\<close> it adds
  are the sessions paired with their positions, filtered by recency, each with operation
  insert, and the stream server is left in the state these calls give one after the
  other. When the clock does not move during the filtering pass, they are the recent
  sessions.
\<close>

theorem publishInitial_inserts_each_recent_session_once:
  "publishCalls (snd (main_publishInitial c m clock ss w)) =
     publishCalls w @
       map (\<lambda>(s, k). (s, Insert))
         (filter (\<lambda>(s, k). isRecentSession (getTime c) m (clock k) s) (zip ss [0..<length ss]))
   \<and> streamServer (snd (main_publishInitial c m clock ss w)) =
       foldl (\<lambda>st (s, k). snd (publishSession c st s Insert)) (streamServer w)
         (filter (\<lambda>(s, k). isRecentSession (getTime c) m (clock k) s) (zip ss [0..<length ss]))
   \<and> ((\<forall>k. clock k = t) \<longrightarrow>
        publishCalls (snd (main_publishInitial c m clock ss w)) =
          publishCalls w @ map (\<lambda>s. (s, Insert)) (filter (isRecentSession (getTime c) m t) ss)
        \<and> streamServer (snd (main_publishInitial c m clock ss w)) =
            foldl (\<lambda>st s. snd (publishSession c st s Insert)) (streamServer w)
              (filter (isRecentSession (getTime c) m t) ss))"
proof -
  have a: "map (\<lambda>s. (s, Insert)) (filterRecent (getTime c) m clock 0 ss) =
        map (\<lambda>(s, k). (s, Insert))
         (filter (\<lambda>(s, k). isRecentSession (getTime c) m (clock k) s) (zip ss [0..<length ss]))"
    by (simp add: filterRecent_zip case_prod_beta comp_def)
  have f: "foldl (\<lambda>st s. snd (publishSession c st s Insert)) s0 (map fst ps) =
        foldl (\<lambda>st (s, k). snd (publishSession c st s Insert)) s0 ps"
    for s0 ps
    by (induction ps arbitrary: s0) (simp_all add: case_prod_beta)
  have a2: "foldl (\<lambda>st s. snd (publishSession c st s Insert)) (streamServer w)
          (filterRecent (getTime c) m clock 0 ss) =
        foldl (\<lambda>st (s, k). snd (publishSession c st s Insert)) (streamServer w)
         (filter (\<lambda>(s, k). isRecentSession (getTime c) m (clock k) s) (zip ss [0..<length ss]))"
    by (simp only: filterRecent_zip f add_0)
  have b: "(\<forall>k. clock k = t) \<Longrightarrow> filterRecent (getTime c) m clock 0 ss = filter (isRecentSession (getTime c) m t) ss"
  proof -
    assume "\<forall>k. clock k = t"
    then have "clock = (\<lambda>k. t)" by auto
    then show ?thesis by (simp add: filterRecent_constant_clock)
  qed
  have 1: "publishCalls (snd (main_publishInitial c m clock ss w)) =
     publishCalls w @
       map (\<lambda>(s, k). (s, Insert))
         (filter (\<lambda>(s, k). isRecentSession (getTime c) m (clock k) s) (zip ss [0..<length ss]))"
    using a by (simp add: publishInitial_calls)
  have 2: "streamServer (snd (main_publishInitial c m clock ss w)) =
       foldl (\<lambda>st (s, k). snd (publishSession c st s Insert)) (streamServer w)
         (filter (\<lambda>(s, k). isRecentSession (getTime c) m (clock k) s) (zip ss [0..<length ss]))"
    using a2 by (simp only: publishInitial_stream)
  have 3: "(\<forall>k. clock k = t) \<longrightarrow>
        publishCalls (snd (main_publishInitial c m clock ss w)) =
          publishCalls w @ map (\<lambda>s. (s, Insert)) (filter (isRecentSession (getTime c) m t) ss)
        \<and> streamServer (snd (main_publishInitial c m clock ss w)) =
            foldl (\<lambda>st s. snd (publishSession c st s Insert)) (streamServer w)
              (filter (isRecentSession (getTime c) m t) ss)"
    using b by (simp add: publishInitial_calls publishInitial_stream)
  show ?thesis by (rule conjI[OF 1 conjI[OF 2 3]])
qed

text \<open>
  Claim C2 on the sample sessions: the session last active two days before is left out,
  the three others are inserted once each; the stream holds the inserts of the two that
  the sample stream server accepts.
\<close>

theorem publishInitial_inserts_each_recent_session_once_witness:
  "publishCalls (snd (main_publishInitial sampleCollaborators (Some 86400000) (\<lambda>k. 172800000)
       sampleSessions sampleDaemon)) =
     [(sampleSession ''new'' ''1970-01-03T00:00:00.000Z'', Insert),
      (sampleSession ''bad'' ''1970-01-03T00:00:00.000Z'', Insert),
      (sampleSession ''last'' ''1970-01-03T00:00:00.000Z'', Insert)]
   \<and> streamServer (snd (main_publishInitial sampleCollaborators (Some 86400000) (\<lambda>k. 172800000)
       sampleSessions sampleDaemon)) =
     [(''new'', Insert), (''last'', Insert)]"
  using publishInitial_inserts_each_recent_session_once[of sampleCollaborators "Some 86400000" "\<lambda>k. 172800000" sampleSessions sampleDaemon
          172800000, THEN conjunct2, THEN conjunct2]
  by (simp add: sampleDaemon_def sampleCollaborators_def sampleTime_def sampleSession_def
        sampleSessions_def isRecentSession_def)

text \<open>
  Claim C7. The watcher is constructed with \<^verbatim>\<open>debounceMs\<close> 300, and with
  \<^verbatim>\<open>MAX_AGE_HOURS\<close> unset the maximum age is 24 hours, which is 86400000 milliseconds.
\<close>

theorem default_configuration: "e ''MAX_AGE_HOURS'' = None \<Longrightarrow>
   MAX_AGE_MS e = Some (24 * 60 * 60 * 1000) \<and> MAX_AGE_MS e = Some 86400000 \<and> debounceMs main_watcherOptions = 300"
  by (simp add: MAX_AGE_MS_def MAX_AGE_HOURS_def nullish_def parseInt_24 main_watcherOptions_def)

text \<open>Claim C7 in the empty environment.\<close>

theorem default_configuration_witness:
  "MAX_AGE_MS (\<lambda>v. None) = Some 86400000 \<and> debounceMs main_watcherOptions = 300"
  using default_configuration[of "\<lambda>v. None"] by simp

subsection \<open>Publish failures\<close>

text \<open>
  Claim C4. A publish that rejects is caught and reported on the console, and stops
  nothing. The promise of the session handler is always fulfilled and the handler leaves
  the exit code alone; after its session line the console holds the report of the
  rejection, if there was one. Over any sequence of events every event that passes the
  filter gets its call of \<^verbatim>\<open>publishSession\<close>, applied to the stream server as the
  earlier calls left it, whatever these calls did. The initial loop never rejects, applies
  \<^verbatim>\<open>publishSession\<close> for every recent session in the same way, and reports exactly the
  rejections. The process exits (with code 1) only when one of the three start methods
  rejects.
\<close>

theorem publish_failure_is_logged_and_isolated:
  "fst (main_onSession c m clockNow ts ev w) = Fulfilled
   \<and> exitCode (snd (main_onSession c m clockNow ts ev w)) = exitCode w
   \<and> console (snd (main_onSession c m clockNow ts ev w)) =
       console w @
         (if passesFilter (getTime c) m clockNow ev
          then SessionLine ts (typeTag (type ev)) (take 8 (SessionState.sessionId (session ev)))
                 (dirName (SessionState.cwd (session ev)))
                 (formatStatus c (SessionState.status (session ev)))
               # reported FailedToPublish
                   [fst (publishSession c (streamServer w) (session ev) (operationOf (type ev)))]
          else [])
   \<and> fst (main_onSessions c m evs w) = Fulfilled
   \<and> publishCalls (snd (main_onSessions c m evs w)) =
       publishCalls w @
         map (\<lambda>(t, ts, ev). (session ev, operationOf (type ev)))
           (filter (\<lambda>(t, ts, ev). passesFilter (getTime c) m t ev) evs)
   \<and> streamServer (snd (main_onSessions c m evs w)) =
       foldl (\<lambda>s (t, ts, ev). snd (publishSession c s (session ev) (operationOf (type ev))))
         (streamServer w) (filter (\<lambda>(t, ts, ev). passesFilter (getTime c) m t ev) evs)
   \<and> exitCode (snd (main_onSessions c m evs w)) = exitCode w
   \<and> fst (main_publishInitial c m clock ss w) = Fulfilled
   \<and> publishCalls (snd (main_publishInitial c m clock ss w)) =
       publishCalls w @ map (\<lambda>s. (s, Insert)) (filterRecent (getTime c) m clock 0 ss)
   \<and> streamServer (snd (main_publishInitial c m clock ss w)) =
       foldl (\<lambda>s x. snd (publishSession c s x Insert)) (streamServer w)
         (filterRecent (getTime c) m clock 0 ss)
   \<and> console (snd (main_publishInitial c m clock ss w)) =
       console w @ [FoundRecent (length (filterRecent (getTime c) m clock 0 ss)) (length ss)]
         @ reported FailedToPublishInitial
             (insertOutcomes c (filterRecent (getTime c) m clock 0 ss) (streamServer w))
         @ [Ready]
   \<and> exitCode (run c e su s0) =
       (if fst (streamServer_start c s0) = Fulfilled \<and> apiListened su = Fulfilled
           \<and> watcherStarted su = Fulfilled
        then None else Some 1)"
  by (simp only: onSession_fst onSession_exitCode onSession_console onSessions_fst onSessions_calls
        onSessions_stream onSessions_exitCode publishInitial_fst publishInitial_calls
        publishInitial_stream publishInitial_console run_exitCode simp_thms)

text \<open>
  Claim C4 on the sample sessions, where every publish of the session \<open>bad\<close> rejects: the
  session after it is still published and reaches the stream, the rejection is reported
  once, and the process does not exit. The same holds of the three sessions handled as
  update events.
\<close>

theorem publish_failure_is_logged_and_isolated_witness:
  "fst (main_publishInitial sampleCollaborators (Some 86400000) (\<lambda>k. 172800000)
       sampleSessions sampleDaemon) = Fulfilled
   \<and> publishCalls (snd (main_publishInitial sampleCollaborators (Some 86400000) (\<lambda>k. 172800000)
       sampleSessions sampleDaemon)) =
     [(sampleSession ''new'' ''1970-01-03T00:00:00.000Z'', Insert),
      (sampleSession ''bad'' ''1970-01-03T00:00:00.000Z'', Insert),
      (sampleSession ''last'' ''1970-01-03T00:00:00.000Z'', Insert)]
   \<and> streamServer (snd (main_publishInitial sampleCollaborators (Some 86400000) (\<lambda>k. 172800000)
       sampleSessions sampleDaemon)) =
     [(''new'', Insert), (''last'', Insert)]
   \<and> console (snd (main_publishInitial sampleCollaborators (Some 86400000) (\<lambda>k. 172800000)
       sampleSessions sampleDaemon)) =
     [FoundRecent 3 4, FailedToPublishInitial ''Error: storage exhausted'', Ready]
   \<and> fst (main_onSessions sampleCollaborators (Some 86400000) sampleEvents sampleDaemon) = Fulfilled
   \<and> streamServer (snd (main_onSessions sampleCollaborators (Some 86400000) sampleEvents sampleDaemon)) =
     [(''new'', Update), (''last'', Update)]
   \<and> exitCode (run sampleCollaborators (\<lambda>v. None) sampleStartup []) = None"
  using publish_failure_is_logged_and_isolated[of sampleCollaborators "Some 86400000" 172800000 "''12:00:00''"
          "\<lparr>type = Deleted, session = sampleSession ''old'' ''1970-01-01T00:00:00.000Z''\<rparr>"
          sampleDaemon sampleEvents "\<lambda>k. 172800000" sampleSessions "\<lambda>v. None" sampleStartup "[]"]
  by (simp add: sampleDaemon_def sampleCollaborators_def sampleTime_def sampleSession_def
        sampleSessions_def sampleStartup_def sampleEvents_def isRecentSession_def reported_def
        passesFilter_def operationOf_def)

section \<open>Properties of the HTTP API server\<close>

subsection \<open>The invariant of the loop store\<close>

lemma emit_fields [simp]:
  "heap (emit es a) = heap a" "activeLoops (emit es a) = activeLoops a"
  "nextRef (emit es a) = nextRef a" "tasks (emit es a) = tasks a"
  "server (emit es a) = server a" "effects (emit es a) = effects a @ es"
  "ApiServer.onClearSessions (emit es a) = ApiServer.onClearSessions a"
  "ApiServer.workDir (emit es a) = ApiServer.workDir a"
  "ApiServer.port (emit es a) = ApiServer.port a"
  by (simp_all add: emit_def)

lemma setLoop_fields [simp]:
  "heap (setLoop r loop a) = (heap a)(r \<mapsto> loop)" "activeLoops (setLoop r loop a) = activeLoops a"
  "nextRef (setLoop r loop a) = nextRef a" "tasks (setLoop r loop a) = tasks a"
  "server (setLoop r loop a) = server a" "effects (setLoop r loop a) = effects a"
  "ApiServer.onClearSessions (setLoop r loop a) = ApiServer.onClearSessions a"
  by (simp_all add: setLoop_def)

lemma wfI:
  assumes "distinct (map snd (activeLoops a))"
    and "\<And>r. r \<in> set (map snd (activeLoops a)) \<Longrightarrow> r < nextRef a"
    and "\<And>r. (heap a r \<noteq> None) = (r < nextRef a)"
    and "\<And>r loop. heap a r = Some loop \<Longrightarrow> withinBounds tn loop"
    and "\<And>r loop. heap a r = Some loop \<Longrightarrow> r \<notin> R \<Longrightarrow> LoopProcess.status loop = Running
           \<Longrightarrow> process loop \<noteq> None"
  shows "wellFormedExcept tn R a"
  unfolding wellFormedExcept_def using assms by blast

lemma wf_distinct: "wellFormedExcept tn R a \<Longrightarrow> distinct (map snd (activeLoops a))"
  by (simp add: wellFormedExcept_def)

lemma wf_refs: "wellFormedExcept tn R a \<Longrightarrow> r \<in> set (map snd (activeLoops a)) \<Longrightarrow> r < nextRef a"
  unfolding wellFormedExcept_def by blast

lemma wf_heap: "wellFormedExcept tn R a \<Longrightarrow> (heap a r \<noteq> None) = (r < nextRef a)"
  by (simp add: wellFormedExcept_def)

lemma wf_running:
  "wellFormedExcept tn R a \<Longrightarrow> heap a r = Some loop \<Longrightarrow> r \<notin> R \<Longrightarrow>
   LoopProcess.status loop = Running \<Longrightarrow> process loop \<noteq> None"
  unfolding wellFormedExcept_def by blast

lemma wf_lookup:
  "wellFormedExcept tn R a \<Longrightarrow> heap a r = Some loop \<Longrightarrow> withinBounds tn loop"
  unfolding wellFormedExcept_def by blast

lemma wf_emit [simp]: "wellFormedExcept tn R (emit es a) = wellFormedExcept tn R a"
  by (simp add: wellFormedExcept_def)

lemma wf_tasks [simp]: "wellFormedExcept tn R (a\<lparr>tasks := t\<rparr>) = wellFormedExcept tn R a"
  by (simp add: wellFormedExcept_def)

lemma wf_mono:
  assumes "wellFormedExcept tn R a" and "R \<subseteq> R'"
  shows "wellFormedExcept tn R' a"
proof (rule wfI)
  show "distinct (map snd (activeLoops a))" by (rule wf_distinct[OF assms(1)])
  show "\<And>r. r \<in> set (map snd (activeLoops a)) \<Longrightarrow> r < nextRef a" by (rule wf_refs[OF assms(1)])
  show "\<And>r. (heap a r \<noteq> None) = (r < nextRef a)" by (rule wf_heap[OF assms(1)])
  show "\<And>r loop. heap a r = Some loop \<Longrightarrow> withinBounds tn loop" by (rule wf_lookup[OF assms(1)])
  show "\<And>r loop. heap a r = Some loop \<Longrightarrow> r \<notin> R' \<Longrightarrow> LoopProcess.status loop = Running
           \<Longrightarrow> process loop \<noteq> None"
    using wf_running[OF assms(1)] assms(2) by blast
qed

lemma wf_setLoop:
  assumes "wellFormedExcept tn R a" and "heap a r \<noteq> None" and "withinBounds tn loop"
    and "LoopProcess.status loop = Running \<longrightarrow> process loop \<noteq> None"
  shows "wellFormedExcept tn (R - {r}) (setLoop r loop a)"
proof (rule wfI)
  show "distinct (map snd (activeLoops (setLoop r loop a)))" using wf_distinct[OF assms(1)] by simp
  show "\<And>q. q \<in> set (map snd (activeLoops (setLoop r loop a))) \<Longrightarrow> q < nextRef (setLoop r loop a)"
    using wf_refs[OF assms(1)] by simp
  show "\<And>q. (heap (setLoop r loop a) q \<noteq> None) = (q < nextRef (setLoop r loop a))"
    using wf_heap[OF assms(1)] assms(2) by auto
  show "\<And>q l. heap (setLoop r loop a) q = Some l \<Longrightarrow> withinBounds tn l"
    using wf_lookup[OF assms(1)] assms(3) by (auto split: if_splits)
  show "\<And>q l. heap (setLoop r loop a) q = Some l \<Longrightarrow> q \<notin> R - {r} \<Longrightarrow> LoopProcess.status l = Running
           \<Longrightarrow> process l \<noteq> None"
    using wf_running[OF assms(1)] assms(4) by (auto split: if_splits)
qed

lemma wf_setLoop_same:
  assumes "wellFormedExcept tn R a" and "heap a r \<noteq> None" and "withinBounds tn loop"
    and "r \<in> R"
  shows "wellFormedExcept tn R (setLoop r loop a)"
proof (rule wfI)
  show "distinct (map snd (activeLoops (setLoop r loop a)))" using wf_distinct[OF assms(1)] by simp
  show "\<And>q. q \<in> set (map snd (activeLoops (setLoop r loop a))) \<Longrightarrow> q < nextRef (setLoop r loop a)"
    using wf_refs[OF assms(1)] by simp
  show "\<And>q. (heap (setLoop r loop a) q \<noteq> None) = (q < nextRef (setLoop r loop a))"
    using wf_heap[OF assms(1)] assms(2) by auto
  show "\<And>q l. heap (setLoop r loop a) q = Some l \<Longrightarrow> withinBounds tn l"
    using wf_lookup[OF assms(1)] assms(3) by (auto split: if_splits)
  show "\<And>q l. heap (setLoop r loop a) q = Some l \<Longrightarrow> q \<notin> R \<Longrightarrow> LoopProcess.status l = Running
           \<Longrightarrow> process l \<noteq> None"
    using wf_running[OF assms(1)] assms(4) by (auto split: if_splits)
qed

lemma withinBounds_status [simp]:
  "withinBounds tn (loop\<lparr>LoopProcess.status := st\<rparr>) = withinBounds tn loop"
  by (simp add: withinBounds_def split: sum.splits)

lemma withinBounds_output [simp]:
  "withinBounds tn (loop\<lparr>loop_output := out\<rparr>) = withinBounds tn loop"
  by (simp add: withinBounds_def split: sum.splits)

lemma withinBounds_process [simp]:
  "withinBounds tn (loop\<lparr>process := p\<rparr>) = withinBounds tn loop"
  by (simp add: withinBounds_def split: sum.splits)

lemma wf_drop:
  assumes "wellFormedExcept tn R a" and "\<forall>r\<in>R. heap a r = None"
  shows "wellFormedExcept tn {} a"
proof (rule wfI)
  show "distinct (map snd (activeLoops a))" by (rule wf_distinct[OF assms(1)])
  show "\<And>r. r \<in> set (map snd (activeLoops a)) \<Longrightarrow> r < nextRef a" by (rule wf_refs[OF assms(1)])
  show "\<And>r. (heap a r \<noteq> None) = (r < nextRef a)" by (rule wf_heap[OF assms(1)])
  show "\<And>r loop. heap a r = Some loop \<Longrightarrow> withinBounds tn loop" by (rule wf_lookup[OF assms(1)])
  show "\<And>r loop. heap a r = Some loop \<Longrightarrow> r \<notin> {} \<Longrightarrow> LoopProcess.status loop = Running
           \<Longrightarrow> process loop \<noteq> None"
    using wf_running[OF assms(1)] assms(2) by force
qed

lemma wf_finish:
  assumes "wellFormedExcept tn {r} a"
  shows "wellFormedExcept tn {} (runIterations_finish r a)"
proof (cases "heap a r")
  case None
  then have "wellFormedExcept tn {} a" using assms by (intro wf_drop[of tn "{r}"]) auto
  then show ?thesis by (simp add: runIterations_finish_def None)
next
  case (Some loop)
  let ?loop' = "if LoopProcess.status loop = Running then loop\<lparr>LoopProcess.status := Completed\<rparr> else loop"
  have wb: "withinBounds tn ?loop'" using wf_lookup[OF assms Some] by simp
  have "wellFormedExcept tn {r} (a\<lparr>tasks := (tasks a)(r := None)\<rparr>)" using assms by simp
  moreover have "heap (a\<lparr>tasks := (tasks a)(r := None)\<rparr>) r \<noteq> None" using Some by simp
  ultimately have "wellFormedExcept tn ({r} - {r}) (setLoop r ?loop' (a\<lparr>tasks := (tasks a)(r := None)\<rparr>))"
    using wb by (intro wf_setLoop) auto
  then show ?thesis by (simp add: runIterations_finish_def Some Let_def)
qed

lemma wf_catch:
  assumes "wellFormedExcept tn {r} a"
  shows "wellFormedExcept tn {} (runIterations_catch i err r a)"
proof (cases "heap a r")
  case None
  then have "wellFormedExcept tn {} a" using assms by (intro wf_drop[of tn "{r}"]) auto
  then show ?thesis by (simp add: runIterations_catch_def None)
next
  case (Some loop)
  have wb: "withinBounds tn loop" by (rule wf_lookup[OF assms Some])
  have "wellFormedExcept tn {r}
          (setLoop r (loop\<lparr>loop_output := loop_output loop @ [''Error in iteration '' @ showNat i @ '': '' @ err],
                     LoopProcess.status := Failed\<rparr>) (emit [Log (IterationFailed (loop_id loop) i err)] a))"
    using assms Some wb by (intro wf_setLoop_same) simp_all
  then show ?thesis by (simp add: runIterations_catch_def Some wf_finish)
qed

lemma num_lt_Fin_mono: "num_lt n (Fin x) \<Longrightarrow> x \<le> y \<Longrightarrow> num_lt n (Fin y)"
  by (cases n) auto

lemma wf_from:
  assumes "wellFormedExcept tn {r} a"
  shows "wellFormedExcept tn {} (runIterations_from tn sp dir i r a)"
proof (cases "heap a r")
  case None
  then have "wellFormedExcept tn {} a" using assms by (intro wf_drop[of tn "{r}"]) auto
  then show ?thesis by (simp add: runIterations_from_def None)
next
  case (Some loop)
  have wb: "withinBounds tn loop" by (rule wf_lookup[OF assms Some])
  then obtain n where n: "toNumber tn (iterations loop) = Inr n" and n1: "\<not> num_lt n (Fin 1)"
    and tr: "truthy (iterations loop)"
    by (auto simp: withinBounds_def split: sum.splits)
  show ?thesis
  proof (cases "\<not> num_le (Fin (of_nat i)) n \<or> LoopProcess.status loop \<noteq> Running")
    case True
    then have "runIterations_from tn sp dir i r a = runIterations_finish r a"
      by (auto simp: runIterations_from_def Some n)
    then show ?thesis using wf_finish[OF assms] by simp
  next
    case False
    then have le: "num_le (Fin (of_nat i)) n" and run: "LoopProcess.status loop = Running" by auto
    let ?loop1 = "loop\<lparr>currentIteration := i\<rparr>"
    let ?a1 = "emit [Log (StartingIteration (loop_id loop) i (iterations loop))] (setLoop r ?loop1 a)"
    have wb1: "withinBounds tn ?loop1"
      using n n1 le tr by (simp add: withinBounds_def num_le_def)
    have wf1: "wellFormedExcept tn {r} ?a1"
      using assms Some wb1 by (simp add: wf_setLoop_same)
    show ?thesis
    proof (cases sp)
      case (Inl err)
      have "runIterations_from tn sp dir i r a = runIterations_catch i err r ?a1"
        using le run by (simp add: runIterations_from_def Some n Inl Let_def)
      then show ?thesis using wf_catch[OF wf1] by simp
    next
      case (Inr p)
      have eq: "runIterations_from tn sp dir i r a =
          emit [Spawn p IterationCommand dir]
            (setLoop r (?loop1\<lparr>process := Some p\<rparr>) (?a1\<lparr>tasks := (tasks ?a1)(r \<mapsto> (i, dir))\<rparr>))"
        using le run by (simp add: runIterations_from_def Some n Inr Let_def)
      have "wellFormedExcept tn ({r} - {r})
              (setLoop r (?loop1\<lparr>process := Some p\<rparr>) (?a1\<lparr>tasks := (tasks ?a1)(r \<mapsto> (i, dir))\<rparr>))"
        using wf1 wb1 by (intro wf_setLoop) simp_all
      then show ?thesis by (simp add: eq)
    qed
  qed
qed

lemma wf_resume:
  assumes "wellFormedExcept tn {} a"
  shows "wellFormedExcept tn {} (runIterations_resume tn sp result r a)"
proof (cases "tasks a r")
  case None
  then show ?thesis using assms by (simp add: runIterations_resume_def)
next
  case (Some t)
  obtain i dir where t: "t = (i, dir)" by (cases t)
  show ?thesis
  proof (cases "heap a r")
    case None
    then show ?thesis using assms by (simp add: runIterations_resume_def Some t)
  next
    case loop: (Some loop)
    have wr: "wellFormedExcept tn {r} a" using assms by (rule wf_mono) simp
    have wb: "withinBounds tn loop" by (rule wf_lookup[OF assms loop])
    show ?thesis
    proof (cases result)
      case (Inl err)
      then show ?thesis using wf_catch[OF wr]
        by (simp add: runIterations_resume_def Some t loop)
    next
      case (Inr out)
      let ?loop1 = "loop\<lparr>loop_output := loop_output loop @ [''=== Iteration '' @ showNat i @ '' ==='', out]\<rparr>"
      let ?a1 = "setLoop r ?loop1 a"
      have w1: "wellFormedExcept tn {r} ?a1"
        using wr loop wb by (intro wf_setLoop_same) simp_all
      show ?thesis
      proof (cases "includes_str out ''<promise>COMPLETE</promise>''")
        case True
        have "wellFormedExcept tn {r}
                (setLoop r (?loop1\<lparr>LoopProcess.status := Completed\<rparr>)
                   (emit [Log (PRDComplete (loop_id loop) i)] ?a1))"
          using w1 wb by (intro wf_setLoop_same) simp_all
        then show ?thesis using True
          by (simp add: runIterations_resume_def Some t loop Inr Let_def wf_finish)
      next
        case False
        then show ?thesis using wf_from[OF w1]
          by (simp add: runIterations_resume_def Some t loop Inr Let_def)
      qed
    qed
  qed
qed

lemma snd_map_set: "set (map snd (map_set k r es)) \<subseteq> insert r (set (map snd es))"
proof (induction es)
  case Nil
  then show ?case by simp
next
  case (Cons e es)
  obtain k' r' where e: "e = (k', r')" by (cases e)
  show ?case using Cons by (cases "k = k'") (auto simp: e)
qed

lemma distinct_snd_map_set:
  "distinct (map snd es) \<Longrightarrow> r \<notin> set (map snd es) \<Longrightarrow> distinct (map snd (map_set k r es))"
proof (induction es)
  case Nil
  then show ?case by simp
next
  case (Cons e es)
  obtain k' r' where e: "e = (k', r')" by (cases e)
  show ?case using Cons snd_map_set[of k r es] by (auto simp: e)
qed

lemma wf_startLoopProcess:
  assumes "wellFormedExcept tn {} a" and "toNumber tn its = Inr n" and "\<not> num_lt n (Fin 1)"
    and "truthy its"
  shows "wellFormedExcept tn {} (startLoopProcess tn inp loopId its dir a)"
proof -
  let ?r = "nextRef a"
  let ?loop = "\<lparr>loop_id = loopId, process = None, iterations = its, currentIteration = 0,
                  LoopProcess.status = Running, loop_output = [], startedAt = dateIso inp\<rparr>"
  let ?a1 = "a\<lparr>heap := (heap a)(?r \<mapsto> ?loop), nextRef := Suc ?r,
               activeLoops := map_set loopId ?r (activeLoops a)\<rparr>"
  have fresh: "?r \<notin> set (map snd (activeLoops a))"
    using wf_refs[OF assms(1), of ?r] by auto
  have "\<not> num_lt n (Fin 0)" using assms(3) num_lt_Fin_mono[of n 0 1] by auto
  then have wb: "withinBounds tn ?loop" using assms(2,3,4) by (simp add: withinBounds_def)
  have "wellFormedExcept tn {?r} ?a1"
  proof (rule wfI)
    show "distinct (map snd (activeLoops ?a1))"
      using distinct_snd_map_set[OF wf_distinct[OF assms(1)] fresh] by simp
    show "\<And>q. q \<in> set (map snd (activeLoops ?a1)) \<Longrightarrow> q < nextRef ?a1"
      using snd_map_set[of loopId ?r "activeLoops a"] wf_refs[OF assms(1)]
      by (auto simp: less_Suc_eq)
    show "\<And>q. (heap ?a1 q \<noteq> None) = (q < nextRef ?a1)"
      using wf_heap[OF assms(1)] by (auto simp: less_Suc_eq)
    show "\<And>q l. heap ?a1 q = Some l \<Longrightarrow> withinBounds tn l"
      using wf_lookup[OF assms(1)] wb by (auto split: if_splits)
    show "\<And>q l. heap ?a1 q = Some l \<Longrightarrow> q \<notin> {?r} \<Longrightarrow> LoopProcess.status l = Running
           \<Longrightarrow> process l \<noteq> None"
      using wf_running[OF assms(1)] by (auto split: if_splits)
  qed
  then show ?thesis
    by (simp add: startLoopProcess_def Let_def wf_from)
qed

lemma wf_cong:
  "wellFormedExcept tn R a \<Longrightarrow> heap a' = heap a \<Longrightarrow> activeLoops a' = activeLoops a \<Longrightarrow>
   nextRef a' = nextRef a \<Longrightarrow> wellFormedExcept tn R a'"
  by (simp add: wellFormedExcept_def)

lemma runCommand_frame:
  "heap (snd (runCommand inp cmd dir a)) = heap a
   \<and> activeLoops (snd (runCommand inp cmd dir a)) = activeLoops a
   \<and> nextRef (snd (runCommand inp cmd dir a)) = nextRef a"
  by (simp add: runCommand_def Let_def split: sum.splits option.splits ProcessEnd.splits)

lemma handleCreatePlan_frame:
  "heap (snd (handleCreatePlan inp req a)) = heap a
   \<and> activeLoops (snd (handleCreatePlan inp req a)) = activeLoops a
   \<and> nextRef (snd (handleCreatePlan inp req a)) = nextRef a"
proof -
  have r: "\<And>cmd dir b. heap (snd (runCommand inp cmd dir b)) = heap b
     \<and> activeLoops (snd (runCommand inp cmd dir b)) = activeLoops b
     \<and> nextRef (snd (runCommand inp cmd dir b)) = nextRef b"
    by (rule runCommand_frame)
  show ?thesis
    unfolding handleCreatePlan_def Let_def
    by (auto split: sum.splits prod.splits dest!: arg_cong[where f=snd] simp: r[THEN conjunct1]
          r[THEN conjunct2, THEN conjunct1] r[THEN conjunct2, THEN conjunct2])
qed

lemma handleSavePlan_frame:
  "heap (snd (handleSavePlan inp req a)) = heap a
   \<and> activeLoops (snd (handleSavePlan inp req a)) = activeLoops a
   \<and> nextRef (snd (handleSavePlan inp req a)) = nextRef a"
  unfolding handleSavePlan_def Let_def by (auto split: sum.splits)

lemma handleClearSessions_frame:
  "heap (fst (snd (handleClearSessions a x))) = heap a
   \<and> activeLoops (fst (snd (handleClearSessions a x))) = activeLoops a
   \<and> nextRef (fst (snd (handleClearSessions a x))) = nextRef a"
  unfolding handleClearSessions_def Let_def
  by (auto split: option.splits prod.splits settled.splits)

lemma wf_handleCancelLoop:
  assumes "wellFormedExcept tn {} a"
  shows "wellFormedExcept tn {} (snd (handleCancelLoop req a))"
proof (cases "parsedBody req")
  case (Inl e)
  then show ?thesis using assms by (simp add: handleCancelLoop_def)
next
  case (Inr b)
  show ?thesis
  proof (cases "getProp b ''loopId''")
    case (Inl e)
    then show ?thesis using assms Inr by (simp add: handleCancelLoop_def)
  next
    case loopId: (Inr loopId)
    let ?found = "case loopId of JStr k \<Rightarrow> map_of (activeLoops a) k | _ \<Rightarrow> None"
    show ?thesis
    proof (cases "\<not> truthy loopId \<or> ?found = None")
      case True
      then show ?thesis using assms Inr loopId
        by (auto simp: handleCancelLoop_def)
    next
      case False
      then obtain r where r: "?found = Some r" by auto
      show ?thesis
      proof (cases "heap a r")
        case None
        then show ?thesis using assms Inr loopId False r
          by (simp add: handleCancelLoop_def)
      next
        case (Some loop)
        have step: "wellFormedExcept tn {} (emit es (setLoop r (loop\<lparr>LoopProcess.status := Cancelled\<rparr>) a))" for es
        proof -
          have "wellFormedExcept tn ({} - {r}) (setLoop r (loop\<lparr>LoopProcess.status := Cancelled\<rparr>) a)"
            using assms Some wf_lookup[OF assms Some] by (intro wf_setLoop) simp_all
          then show ?thesis by simp
        qed
        show ?thesis using assms Inr loopId False r Some step
          by (simp add: handleCancelLoop_def Let_def split: option.splits)
      qed
    qed
  qed
qed

lemma wf_handleStartLoop:
  assumes "wellFormedExcept tn {} a"
  shows "wellFormedExcept tn {} (snd (handleStartLoop tn inp req a))"
proof (cases "parsedBody req")
  case (Inl e)
  then show ?thesis using assms by (simp add: handleStartLoop_def)
next
  case (Inr b)
  show ?thesis
  proof (cases "getProp b ''iterations''")
    case (Inl e)
    then show ?thesis using assms Inr by (simp add: handleStartLoop_def)
  next
    case its: (Inr its)
    show ?thesis
    proof (cases "toNumber tn its")
      case (Inl e)
      then show ?thesis using assms Inr its by (simp add: handleStartLoop_def Let_def)
    next
      case n: (Inr n)
      have step: "wellFormedExcept tn {} (startLoopProcess tn inp k its dir (emit es a))"
        if "\<not> num_lt n (Fin 1)" "truthy its" for k dir es
        using assms that n by (intro wf_startLoopProcess[of tn _ its n]) simp_all
      show ?thesis using assms Inr its n step
        by (simp add: handleStartLoop_def Let_def)
    qed
  qed
qed

lemma route_state:
  "fst (snd (handleRequest_try tn inp req a x)) =
     (if httpMethod req = ''POST'' \<and> pathname req = ''/api/plan/create''
      then snd (handleCreatePlan inp req a)
      else if httpMethod req = ''POST'' \<and> pathname req = ''/api/plan/save''
      then snd (handleSavePlan inp req a)
      else if httpMethod req = ''POST'' \<and> pathname req = ''/api/loop/start''
      then snd (handleStartLoop tn inp req a)
      else if httpMethod req = ''GET'' \<and> pathname req = ''/api/loop/status''
      then a
      else if httpMethod req = ''POST'' \<and> pathname req = ''/api/loop/cancel''
      then snd (handleCancelLoop req a)
      else if httpMethod req = ''POST'' \<and> pathname req = ''/api/sessions/clear''
      then fst (snd (handleClearSessions a x))
      else a)"
  unfolding handleRequest_try_def Let_def case_prod_beta
  by (simp only: if_distrib[where f="\<lambda>t. fst (snd t)"] fst_conv snd_conv)

lemma wf_handleRequest_try:
  assumes "wellFormedExcept tn {} a"
  shows "wellFormedExcept tn {} (fst (snd (handleRequest_try tn inp req a x)))"
proof -
  have c: "wellFormedExcept tn {} (snd (handleCreatePlan inp req a))"
    by (rule wf_cong[OF assms(1)]) (simp_all add: handleCreatePlan_frame)
  have s: "wellFormedExcept tn {} (snd (handleSavePlan inp req a))"
    by (rule wf_cong[OF assms(1)]) (simp_all add: handleSavePlan_frame)
  have l: "wellFormedExcept tn {} (snd (handleStartLoop tn inp req a))"
    by (rule wf_handleStartLoop[OF assms(1)])
  have k: "wellFormedExcept tn {} (snd (handleCancelLoop req a))"
    by (rule wf_handleCancelLoop[OF assms(1)])
  have e: "wellFormedExcept tn {} (fst (snd (handleClearSessions a x)))"
    by (rule wf_cong[OF assms(1)]) (simp_all add: handleClearSessions_frame)
  show ?thesis
    by (simp only: route_state if_split[of "wellFormedExcept tn {}"])
       (intro conjI impI c s l k e assms)
qed

lemma wf_handleRequest:
  assumes "wellFormedExcept tn {} a" and "handleRequest tn inp req a x = (res, a', x')"
  shows "wellFormedExcept tn {} a'"
proof -
  obtain r b y where t: "handleRequest_try tn inp req a x = (r, b, y)"
    by (cases "handleRequest_try tn inp req a x")
  have wb: "wellFormedExcept tn {} b"
    using wf_handleRequest_try[OF assms(1), of inp req x] t by simp
  show ?thesis
  proof (cases "httpMethod req = ''OPTIONS''")
    case True
    then have "a' = a" using assms(2) by (simp add: handleRequest_def)
    then show ?thesis using assms(1) by simp
  next
    case False
    show ?thesis
    proof (cases r)
      case (Inl err)
      then have "a' = emit [Log (ErrorHandling (pathname req) err)] b"
        using assms(2) False t by (simp add: handleRequest_def)
      then show ?thesis using wb by simp
    next
      case (Inr response)
      then have "a' = b" using assms(2) False t by (simp add: handleRequest_def)
      then show ?thesis using wb by simp
    qed
  qed
qed

lemma wf_stop_loops:
  "wellFormedExcept tn {} a \<Longrightarrow> wellFormedExcept tn {} (stop_loops es a)"
proof (induction es arbitrary: a)
  case Nil
  then show ?case by simp
next
  case (Cons e es)
  obtain k r where e: "e = (k, r)" by (cases e)
  have step: "wellFormedExcept tn {} (emit fx (a\<lparr>heap := (heap a)(r \<mapsto> loop\<lparr>LoopProcess.status := Cancelled\<rparr>)\<rparr>))"
    if "heap a r = Some loop" for fx loop
  proof -
    have "wellFormedExcept tn ({} - {r}) (setLoop r (loop\<lparr>LoopProcess.status := Cancelled\<rparr>) a)"
      using Cons.prems that wf_lookup[OF Cons.prems that] by (intro wf_setLoop) simp_all
    then show ?thesis by (simp add: setLoop_def)
  qed
  show ?case
    using Cons.prems step
    by (auto simp: e intro!: Cons.IH split: option.splits)
qed

lemma wf_stop: "wellFormedExcept tn {} a \<Longrightarrow> wellFormedExcept tn {} (snd (stop cb a))"
proof -
  assume "wellFormedExcept tn {} a"
  then have w: "wellFormedExcept tn {} (stop_loops (activeLoops a) a)" by (rule wf_stop_loops)
  have "wellFormedExcept tn {} ((stop_loops (activeLoops a) a)\<lparr>activeLoops := []\<rparr>)"
  proof (rule wfI)
    show "distinct (map snd (activeLoops ((stop_loops (activeLoops a) a)\<lparr>activeLoops := []\<rparr>)))" by simp
    show "\<And>r. r \<in> set (map snd (activeLoops ((stop_loops (activeLoops a) a)\<lparr>activeLoops := []\<rparr>)))
          \<Longrightarrow> r < nextRef ((stop_loops (activeLoops a) a)\<lparr>activeLoops := []\<rparr>)" by simp
    show "\<And>r. (heap ((stop_loops (activeLoops a) a)\<lparr>activeLoops := []\<rparr>) r \<noteq> None)
          = (r < nextRef ((stop_loops (activeLoops a) a)\<lparr>activeLoops := []\<rparr>))"
      using wf_heap[OF w] by simp
    show "\<And>r loop. heap ((stop_loops (activeLoops a) a)\<lparr>activeLoops := []\<rparr>) r = Some loop
          \<Longrightarrow> withinBounds tn loop"
      using wf_lookup[OF w] by simp
    show "\<And>r loop. heap ((stop_loops (activeLoops a) a)\<lparr>activeLoops := []\<rparr>) r = Some loop
          \<Longrightarrow> r \<notin> {} \<Longrightarrow> LoopProcess.status loop = Running \<Longrightarrow> process loop \<noteq> None"
      using wf_running[OF w] by simp
  qed
  then show ?thesis
    by (cases "server (stop_loops (activeLoops a) a)")
       (simp_all add: stop_def Let_def wellFormedExcept_def)
qed

lemma wf_start: "wellFormedExcept tn {} a \<Longrightarrow> wellFormedExcept tn {} (snd (start l a))"
  by (cases l) (simp_all add: start_def wellFormedExcept_def)

lemma wf_constructor: "wellFormedExcept tn {} (ApiServer_constructor options dir)"
  by (simp add: wellFormedExcept_def ApiServer_constructor_def)

lemma reachable_wellFormed: "reachable tn a \<Longrightarrow> wellFormed tn a"
  unfolding wellFormed_def
proof (induction rule: reachable.induct)
  case (constructed options dir)
  then show ?case by (rule wf_constructor)
next
  case (started a listened)
  then show ?case by (intro wf_start)
next
  case (handled a inp req x res a' x')
  then show ?case by (intro wf_handleRequest[of tn a inp req x res a' x'])
next
  case (childEnded a spawnResult e r)
  then show ?case by (intro wf_resume)
next
  case (stopped a closeCallbackRuns)
  then show ?case by (intro wf_stop)
qed

subsection \<open>Stopping the server\<close>

lemma stop_loops_frame:
  "activeLoops (stop_loops es a) = activeLoops a \<and> server (stop_loops es a) = server a
   \<and> nextRef (stop_loops es a) = nextRef a \<and> tasks (stop_loops es a) = tasks a"
proof (induction es arbitrary: a)
  case Nil
  then show ?case by simp
next
  case (Cons e es)
  obtain k r where e: "e = (k, r)" by (cases e)
  show ?case by (simp add: e Cons.IH split: option.splits)
qed

lemma cancelEffects_Cons:
  "cancelEffects h ((k, r) # es) =
     (case h r of
        None \<Rightarrow> []
      | Some loop \<Rightarrow>
          (case process loop of
             None \<Rightarrow> []
           | Some p \<Rightarrow> if LoopProcess.status loop = Running
                       then [Kill p SIGTERM, Log (CancelledLoop k)] else [])) @ cancelEffects h es"
  by (simp add: cancelEffects_def)

lemma cancelEffects_cong:
  "(\<And>r. r \<in> set (map snd es) \<Longrightarrow> h r = h' r) \<Longrightarrow> cancelEffects h es = cancelEffects h' es"
proof (induction es)
  case Nil
  then show ?case by (simp add: cancelEffects_def)
next
  case (Cons e es)
  obtain k r where e: "e = (k, r)" by (cases e)
  have "h r = h' r" using Cons.prems[of r] by (simp add: e)
  moreover have "cancelEffects h es = cancelEffects h' es"
    using Cons.prems by (intro Cons.IH) simp
  ultimately show ?case by (simp add: e cancelEffects_Cons)
qed

lemma cancelEffects_no_close: "CloseServer \<notin> set (cancelEffects h es)"
  by (auto simp: cancelEffects_def split: option.splits if_splits)

lemma stop_loops_effects:
  "distinct (map snd es) \<Longrightarrow> effects (stop_loops es a) = effects a @ cancelEffects (heap a) es"
proof (induction es arbitrary: a)
  case Nil
  then show ?case by (simp add: cancelEffects_def)
next
  case (Cons e es)
  obtain k r where e: "e = (k, r)" by (cases e)
  have d: "distinct (map snd es)" and nr: "r \<notin> set (map snd es)"
    using Cons.prems by (simp_all add: e)
  let ?a1 = "case heap a r of
          None \<Rightarrow> a
        | Some loop \<Rightarrow>
            (case process loop of
               None \<Rightarrow> a
             | Some p \<Rightarrow>
                 if LoopProcess.status loop = Running
                 then emit [Kill p SIGTERM, Log (CancelledLoop k)]
                        (a\<lparr>heap := (heap a)(r \<mapsto> loop\<lparr>LoopProcess.status := Cancelled\<rparr>)\<rparr>)
                 else a)"
  have h1: "\<And>q. q \<in> set (map snd es) \<Longrightarrow> heap ?a1 q = heap a q"
    using nr by (auto split: option.splits)
  have e1: "effects ?a1 = effects a @
      (case heap a r of
        None \<Rightarrow> []
      | Some loop \<Rightarrow>
          (case process loop of
             None \<Rightarrow> []
           | Some p \<Rightarrow> if LoopProcess.status loop = Running
                       then [Kill p SIGTERM, Log (CancelledLoop k)] else []))"
    by (simp split: option.splits)
  have "effects (stop_loops (e # es) a) = effects (stop_loops es ?a1)" by (simp add: e)
  also have "\<dots> = effects ?a1 @ cancelEffects (heap ?a1) es" by (rule Cons.IH[OF d])
  also have "cancelEffects (heap ?a1) es = cancelEffects (heap a) es"
    by (rule cancelEffects_cong) (rule h1)
  finally show ?case by (simp only: e1 cancelEffects_Cons e append_assoc)
qed

lemma stop_loops_heap:
  "heap (stop_loops es a) r =
     (if r \<in> set (map snd es)
      then map_option (\<lambda>loop. if process loop \<noteq> None \<and> LoopProcess.status loop = Running
                               then loop\<lparr>LoopProcess.status := Cancelled\<rparr> else loop) (heap a r)
      else heap a r)"
proof (induction es arbitrary: a)
  case Nil
  then show ?case by simp
next
  case (Cons e es)
  obtain k q where e: "e = (k, q)" by (cases e)
  let ?c = "\<lambda>loop. if process loop \<noteq> None \<and> LoopProcess.status loop = Running
                               then loop\<lparr>LoopProcess.status := Cancelled\<rparr> else loop"
  let ?a1 = "case heap a q of
          None \<Rightarrow> a
        | Some loop \<Rightarrow>
            (case process loop of
               None \<Rightarrow> a
             | Some p \<Rightarrow>
                 if LoopProcess.status loop = Running
                 then emit [Kill p SIGTERM, Log (CancelledLoop k)]
                        (a\<lparr>heap := (heap a)(q \<mapsto> loop\<lparr>LoopProcess.status := Cancelled\<rparr>)\<rparr>)
                 else a)"
  have h1: "heap ?a1 r = (if r = q then map_option ?c (heap a q) else heap a r)"
    by (auto split: option.splits)
  have idem: "map_option ?c (map_option ?c x) = map_option ?c x" for x
    by (cases x) auto
  have "heap (stop_loops (e # es) a) r = heap (stop_loops es ?a1) r" by (simp add: e)
  also have "\<dots> = (if r \<in> set (map snd es) then map_option ?c (heap ?a1 r) else heap ?a1 r)"
    by (rule Cons.IH)
  also have "\<dots> = (if r \<in> set (map snd (e # es)) then map_option ?c (heap a r) else heap a r)"
    unfolding h1 by (cases "r = q"; cases "heap a q") (auto simp: e)
  finally show ?case .
qed

lemma showNat_7: "showNat 7 = ''7''"
  by code_simp

lemma sampleRunning_fields:
  "activeLoops sampleRunning = [(''loop-7'', 0)]"
  "heap sampleRunning 0 = Some sampleLoop"
  "server sampleRunning = None"
  "effects sampleRunning =
     [Log (StartingLoop ''loop-7'' (JNum (Fin 3)) (JStr ''/home/u'')),
      Log (StartingIteration ''loop-7'' 1 (JNum (Fin 3))),
      Spawn 4242 IterationCommand (JStr ''/home/u'')]"
  by (simp_all add: sampleRunning_def sampleLoop_def handleRequest_def handleRequest_try_def post_def
        handleStartLoop_def toNumber_def workDirOf_def startLoopProcess_def runIterations_from_def
        num_le_def emit_def setLoop_def sampleApi_def ApiServer_constructor_def sampleInputs_def
        showNat_7 nullish_def Let_def jsonResponse_def errorResponse_def)

lemma sampleRunning_reachable: "reachable (\<lambda>v. NaN) sampleRunning"
proof -
  obtain res a' x' where h: "handleRequest (\<lambda>v. NaN) sampleInputs
                 (post ''/api/loop/start'' (JObj [(''iterations'', JNum (Fin 3))])) sampleApi 0 = (res, a', x')"
    by (cases "handleRequest (\<lambda>v. NaN) sampleInputs
                 (post ''/api/loop/start'' (JObj [(''iterations'', JNum (Fin 3))])) sampleApi 0")
  have "reachable (\<lambda>v. NaN) sampleApi"
    unfolding sampleApi_def by (rule reachable.constructed)
  then have "reachable (\<lambda>v. NaN) a'" using h by (rule reachable.handled)
  then show ?thesis by (simp add: sampleRunning_def h)
qed

text \<open>
  Claim C6. In every state the server can reach, \<^verbatim>\<open>stop\<close> does the following, in this
  order: for each loop of \<^verbatim>\<open>activeLoops\<close> that is running it sends SIGTERM to the loop's
  process and logs the cancellation, and only after these, when there is a server
  object, it closes the server. Every loop of the map that was running has a process, has
  been sent SIGTERM and is cancelled afterwards; every other loop of the map is unchanged.
  The map is empty afterwards. The returned promise resolves at once when the server was
  never started (the server object is null), and otherwise when the callback of
  \<^verbatim>\<open>server.close\<close> runs.
\<close>

theorem stop_cancels_running_loops_then_closes:
  "reachable tn a \<longrightarrow>
     effects (snd (stop closeCallbackRuns a)) =
       effects a @ cancelEffects (heap a) (activeLoops a)
         @ (if server a = None then [] else [CloseServer])
     \<and> CloseServer \<notin> set (cancelEffects (heap a) (activeLoops a))
     \<and> (\<forall>(k, r)\<in>set (activeLoops a).
           \<exists>loop. heap a r = Some loop
             \<and> (if LoopProcess.status loop = Running
                 then (\<exists>p. process loop = Some p
                        \<and> Kill p SIGTERM \<in> set (cancelEffects (heap a) (activeLoops a))
                        \<and> heap (snd (stop closeCallbackRuns a)) r
                            = Some (loop\<lparr>LoopProcess.status := Cancelled\<rparr>))
                 else heap (snd (stop closeCallbackRuns a)) r = Some loop))
     \<and> activeLoops (snd (stop closeCallbackRuns a)) = []
     \<and> fst (stop closeCallbackRuns a) = (server a = None \<or> closeCallbackRuns)"
proof
  assume "reachable tn a"
  then have wf: "wellFormedExcept tn {} a" using reachable_wellFormed by (simp add: wellFormed_def)
  let ?s = "stop_loops (activeLoops a) a"
  have fr: "activeLoops ?s = activeLoops a" "server ?s = server a"
    using stop_loops_frame[of "activeLoops a" a] by simp_all
  have eff: "effects ?s = effects a @ cancelEffects (heap a) (activeLoops a)"
    by (rule stop_loops_effects[OF wf_distinct[OF wf]])
  have hp: "heap (snd (stop closeCallbackRuns a)) = heap ?s"
    by (cases "server a") (simp_all add: stop_def Let_def fr)
  have E: "effects (snd (stop closeCallbackRuns a)) =
       effects a @ cancelEffects (heap a) (activeLoops a)
         @ (if server a = None then [] else [CloseServer])"
    by (cases "server a") (simp_all add: stop_def Let_def fr eff)
  have A: "activeLoops (snd (stop closeCallbackRuns a)) = []"
    by (cases "server a") (simp_all add: stop_def Let_def fr)
  have R: "fst (stop closeCallbackRuns a) = (server a = None \<or> closeCallbackRuns)"
    by (cases "server a") (simp_all add: stop_def Let_def fr)
  have L: "\<exists>loop. heap a r = Some loop
             \<and> (if LoopProcess.status loop = Running
                 then (\<exists>p. process loop = Some p
                        \<and> Kill p SIGTERM \<in> set (cancelEffects (heap a) (activeLoops a))
                        \<and> heap (snd (stop closeCallbackRuns a)) r
                            = Some (loop\<lparr>LoopProcess.status := Cancelled\<rparr>))
                 else heap (snd (stop closeCallbackRuns a)) r = Some loop)"
    if kr: "(k, r) \<in> set (activeLoops a)" for k r
  proof -
    have rin: "r \<in> set (map snd (activeLoops a))" using kr by force
    then have "heap a r \<noteq> None" using wf_refs[OF wf rin] wf_heap[OF wf, of r] by simp
    then obtain loop where loop: "heap a r = Some loop" by auto
    show ?thesis
    proof (cases "LoopProcess.status loop = Running")
      case False
      then show ?thesis using loop rin by (simp add: hp stop_loops_heap)
    next
      case True
      then obtain p where p: "process loop = Some p"
        using wf_running[OF wf loop] by auto
      have "Kill p SIGTERM \<in> set (cancelEffects (heap a) (activeLoops a))"
        using kr loop p True by (force simp: cancelEffects_def)
      then show ?thesis using loop rin True p by (simp add: hp stop_loops_heap)
    qed
  qed
  show "effects (snd (stop closeCallbackRuns a)) =
       effects a @ cancelEffects (heap a) (activeLoops a)
         @ (if server a = None then [] else [CloseServer])
     \<and> CloseServer \<notin> set (cancelEffects (heap a) (activeLoops a))
     \<and> (\<forall>(k, r)\<in>set (activeLoops a).
           \<exists>loop. heap a r = Some loop
             \<and> (if LoopProcess.status loop = Running
                 then (\<exists>p. process loop = Some p
                        \<and> Kill p SIGTERM \<in> set (cancelEffects (heap a) (activeLoops a))
                        \<and> heap (snd (stop closeCallbackRuns a)) r
                            = Some (loop\<lparr>LoopProcess.status := Cancelled\<rparr>))
                 else heap (snd (stop closeCallbackRuns a)) r = Some loop))
     \<and> activeLoops (snd (stop closeCallbackRuns a)) = []
     \<and> fst (stop closeCallbackRuns a) = (server a = None \<or> closeCallbackRuns)"
    using E A R L cancelEffects_no_close[of "heap a" "activeLoops a"] by blast
qed

text \<open>
  Claim C6 on the sample server with one running loop, never started: the child 4242 is
  sent SIGTERM, the loop is cancelled, the map is emptied and the promise resolves.
\<close>

theorem stop_cancels_running_loops_then_closes_witness:
  "reachable (\<lambda>v. NaN) sampleRunning
   \<and> effects (snd (stop False sampleRunning)) =
       effects sampleRunning @ [Kill 4242 SIGTERM, Log (CancelledLoop ''loop-7'')]
   \<and> heap (snd (stop False sampleRunning)) 0 = Some (sampleLoop\<lparr>LoopProcess.status := Cancelled\<rparr>)
   \<and> activeLoops (snd (stop False sampleRunning)) = []
   \<and> fst (stop False sampleRunning)"
proof -
  have r: "reachable (\<lambda>v. NaN) sampleRunning" by (rule sampleRunning_reachable)
  have ce: "cancelEffects (heap sampleRunning) [(''loop-7'', 0)] =
      [Kill 4242 SIGTERM, Log (CancelledLoop ''loop-7'')]"
    by (simp add: cancelEffects_def sampleRunning_fields sampleLoop_def)
  from stop_cancels_running_loops_then_closes[of "\<lambda>v. NaN" sampleRunning False] r
  have "effects (snd (stop False sampleRunning)) =
       effects sampleRunning @ cancelEffects (heap sampleRunning) (activeLoops sampleRunning)
         @ (if server sampleRunning = None then [] else [CloseServer])"
    and "\<forall>(k, r)\<in>set (activeLoops sampleRunning).
           \<exists>loop. heap sampleRunning r = Some loop
             \<and> (if LoopProcess.status loop = Running
                 then (\<exists>p. process loop = Some p
                        \<and> Kill p SIGTERM \<in> set (cancelEffects (heap sampleRunning) (activeLoops sampleRunning))
                        \<and> heap (snd (stop False sampleRunning)) r
                            = Some (loop\<lparr>LoopProcess.status := Cancelled\<rparr>))
                 else heap (snd (stop False sampleRunning)) r = Some loop)"
    and "activeLoops (snd (stop False sampleRunning)) = []"
    and "fst (stop False sampleRunning) = (server sampleRunning = None \<or> False)"
    by blast+
  then show ?thesis
    using r by (simp add: ce sampleRunning_fields sampleLoop_def)
qed

subsection \<open>Clearing the sessions\<close>










subsection \<open>Iteration loops\<close>



lemma finish_not_running:
  assumes "heap a r = Some loop" and "LoopProcess.status loop \<noteq> Running"
  shows "heap (runIterations_finish r a) = heap a"
    and "effects (runIterations_finish r a) =
           effects a @ [Log (LoopFinished (loop_id loop) (LoopProcess.status loop))]"
  using assms by (auto simp: runIterations_finish_def Let_def)














section \<open>Properties of the dashboard\<close>

subsection \<open>The effective status\<close>

text \<open>
  Claim C8. The idle timeout is 3600000 milliseconds. \<^verbatim>\<open>getEffectiveStatus\<close> returns idle
  whenever the last activity parses to a time more than 3600000 milliseconds before the
  clock reading, whatever the stored status is, and returns the stored status in every
  other case. So a session stored as working or waiting counts as idle once it is more
  than an hour stale.
\<close>

theorem getEffectiveStatus_idle_after_one_hour:
  "IDLE_TIMEOUT_MS = 3600000
   \<and> (\<forall>t. gt (lastActivityAt s) = Some t \<and> clockNow - t > 3600000 \<longrightarrow>
          getEffectiveStatus gt clockNow s = Idle)
   \<and> (\<not> (\<exists>t. gt (lastActivityAt s) = Some t \<and> clockNow - t > 3600000) \<longrightarrow>
          getEffectiveStatus gt clockNow s = Session.status s)"
  by (auto simp: getEffectiveStatus_def IDLE_TIMEOUT_MS_def split: option.splits)

text \<open>
  Claim C8 on sample sessions last active at the epoch: working and waiting become idle
  at 3600001 milliseconds, a working session is still working at 3600000, and a session
  whose last activity is no date keeps its stored status.
\<close>

theorem getEffectiveStatus_idle_after_one_hour_witness:
  "getEffectiveStatus sampleTime 3600001 (sampleRow ''s'' None Working ''1970-01-01T00:00:00.000Z'') = Idle
   \<and> getEffectiveStatus sampleTime 3600001 (sampleRow ''s'' None Waiting ''1970-01-01T00:00:00.000Z'') = Idle
   \<and> getEffectiveStatus sampleTime 3600000 (sampleRow ''s'' None Working ''1970-01-01T00:00:00.000Z'') = Working
   \<and> getEffectiveStatus sampleTime 3600001 (sampleRow ''s'' None Working ''not a date'') = Working"
  using getEffectiveStatus_idle_after_one_hour[of sampleTime "sampleRow ''s'' None Working ''1970-01-01T00:00:00.000Z''" 3600001]
        getEffectiveStatus_idle_after_one_hour[of sampleTime "sampleRow ''s'' None Waiting ''1970-01-01T00:00:00.000Z''" 3600001]
        getEffectiveStatus_idle_after_one_hour[of sampleTime "sampleRow ''s'' None Working ''1970-01-01T00:00:00.000Z''" 3600000]
        getEffectiveStatus_idle_after_one_hour[of sampleTime "sampleRow ''s'' None Working ''not a date''" 3600001]
  by (simp add: sampleTime_def sampleRow_def)

subsection \<open>Auxiliary facts on grouping\<close>

lemma map_of_map_set: "map_of (map_set k v es) k' = (if k' = k then Some v else map_of es k')"
  by (induction es) auto

lemma keys_map_set_old: "k \<in> fst ` set es \<Longrightarrow> map fst (map_set k v es) = map fst es"
  by (induction es) force+

lemma keys_map_set_new: "k \<notin> fst ` set es \<Longrightarrow> map fst (map_set k v es) = map fst es @ [k]"
  by (induction es) auto

lemma distinct_map_set: "distinct (map fst es) \<Longrightarrow> distinct (map fst (map_set k v es))"
  by (cases "k \<in> fst ` set es") (simp_all add: keys_map_set_old keys_map_set_new)

lemma mset_concat_map_set:
  "mset (concat (map snd (map_set k (nullish (map_of es k) [] @ [x]) es))) =
     mset (concat (map snd es)) + {#x#}"
  by (induction es) (auto simp: nullish_def)

lemma fold_distinct:
  "distinct (map fst acc) \<Longrightarrow> distinct (map fst (foldl addSession acc ss))"
  by (induction ss arbitrary: acc) (auto simp: addSession_def Let_def distinct_map_set)

lemma fold_mset:
  "mset (concat (map snd (foldl addSession acc ss))) = mset (concat (map snd acc)) + mset ss"
  by (induction ss arbitrary: acc) (auto simp: addSession_def Let_def mset_concat_map_set)

lemma map_of_addSession:
  "map_of (addSession acc s) k =
     (if k = groupKey s
      then Some ((case map_of acc k of None \<Rightarrow> [] | Some xs \<Rightarrow> xs) @ [s])
      else map_of acc k)"
  by (simp add: addSession_def Let_def map_of_map_set nullish_def)

lemma fold_map_of:
  "map_of (foldl addSession acc ss) k =
     (case map_of acc k of
        None \<Rightarrow> if k \<in> groupKey ` set ss then Some (filter (\<lambda>s. groupKey s = k) ss) else None
      | Some xs \<Rightarrow> Some (xs @ filter (\<lambda>s. groupKey s = k) ss))"
proof (induction ss arbitrary: acc)
  case Nil
  then show ?case by (simp split: option.splits)
next
  case (Cons s ss)
  have "map_of (foldl addSession acc (s # ss)) k = map_of (foldl addSession (addSession acc s) ss) k"
    by simp
  also have "\<dots> = (case map_of (addSession acc s) k of
        None \<Rightarrow> if k \<in> groupKey ` set ss then Some (filter (\<lambda>s. groupKey s = k) ss) else None
      | Some xs \<Rightarrow> Some (xs @ filter (\<lambda>s. groupKey s = k) ss))"
    by (rule Cons.IH)
  also have "\<dots> = (case map_of acc k of
        None \<Rightarrow> if k \<in> groupKey ` set (s # ss) then Some (filter (\<lambda>s. groupKey s = k) (s # ss)) else None
      | Some xs \<Rightarrow> Some (xs @ filter (\<lambda>s. groupKey s = k) (s # ss)))"
    by (auto simp: map_of_addSession split: option.splits)
  finally show ?case .
qed

lemma groupEntries_distinct: "distinct (map fst (groupEntries ss))"
  by (simp add: groupEntries_def fold_distinct)

lemma groupEntries_mset: "mset (concat (map snd (groupEntries ss))) = mset ss"
  by (simp add: groupEntries_def fold_mset)

lemma groupEntries_map_of:
  "map_of (groupEntries ss) k =
     (if k \<in> groupKey ` set ss then Some (filter (\<lambda>s. groupKey s = k) ss) else None)"
  by (simp add: groupEntries_def fold_map_of)

lemma groupEntries_entry:
  assumes "(k, xs) \<in> set (groupEntries ss)"
  shows "xs = filter (\<lambda>s. groupKey s = k) ss \<and> k \<in> groupKey ` set ss"
proof -
  have "map_of (groupEntries ss) k = Some xs"
    using assms groupEntries_distinct by (simp add: map_of_eq_Some_iff)
  then show ?thesis
    by (simp add: groupEntries_map_of split: if_splits)
qed

lemma groupsWithScores_member:
  assumes "g \<in> set (groupsWithScores gt clock ss)"
  shows "\<exists>k xs t. (k, xs) \<in> set (groupEntries ss) \<and> g = toRepoGroup gt t (k, xs)"
proof -
  from assms obtain e i where z: "(e, i) \<in> set (zip (groupEntries ss) [0..<length (groupEntries ss)])"
    and g: "g = toRepoGroup gt (clock i) e"
    by (auto simp: groupsWithScores_def)
  from z have m: "e \<in> set (groupEntries ss)" by (rule set_zip_leftD)
  obtain k xs where e: "e = (k, xs)" by (cases e)
  show ?thesis using m g e by blast
qed

lemma map_fst_zip_upt: "map (\<lambda>x. f (fst x)) (zip es [0..<length es]) = map f es"
proof -
  have "map (\<lambda>x. f (fst x)) (zip es [0..<length es]) = map f (map fst (zip es [0..<length es]))"
    by (simp only: map_map comp_def)
  also have "\<dots> = map f es"
    by (simp only: map_fst_zip length_upt diff_zero)
  finally show ?thesis .
qed

lemma groupsWithScores_repoId:
  "map repoId (groupsWithScores gt clock ss) = map fst (groupEntries ss)"
proof -
  have "map repoId (groupsWithScores gt clock ss) =
        map (\<lambda>x. fst (fst x)) (zip (groupEntries ss) [0..<length (groupEntries ss)])"
    by (simp add: groupsWithScores_def toRepoGroup_def case_prod_beta comp_def)
  then show ?thesis by (simp only: map_fst_zip_upt)
qed

lemma groupsWithScores_sessions:
  "map sessions (groupsWithScores gt clock ss) = map snd (groupEntries ss)"
proof -
  have "map sessions (groupsWithScores gt clock ss) =
        map (\<lambda>x. snd (fst x)) (zip (groupEntries ss) [0..<length (groupEntries ss)])"
    by (simp add: groupsWithScores_def toRepoGroup_def case_prod_beta comp_def)
  then show ?thesis by (simp only: map_fst_zip_upt)
qed

lemma sortGroups_mset:
  "mset (io gs) = mset gs \<Longrightarrow> mset (sortGroups io gs) = mset gs"
  by (simp add: sortGroups_def)

lemma sortGroups_numeric:
  assumes "list_all (\<lambda>g. activityScore g \<noteq> None) gs"
  shows "mset (sortGroups io gs) = mset gs"
    and "list_all (\<lambda>g. activityScore g \<noteq> None) (sortGroups io gs)"
    and "sortGroups io gs = sortGroups io' gs"
  using assms by (auto simp: sortGroups_def list_all_iff)

lemma sortGroups_sorted:
  assumes num: "list_all (\<lambda>g. activityScore g \<noteq> None) gs"
  shows "sorted_wrt (\<lambda>a b. the (activityScore a) \<ge> the (activityScore b)) (sortGroups io gs)"
proof -
  consider (short) "length gs \<le> 1" | (long) "\<not> length gs \<le> 1" by blast
  then show ?thesis
  proof cases
    case short
    then have "sortGroups io gs = gs" by (simp add: sortGroups_def)
    moreover have "length gs = 0 \<or> (\<exists>x. gs = [x])" using short
      by (cases gs) (auto simp: le_Suc_eq)
    ultimately show ?thesis by auto
  next
    case long
    then have "gs \<noteq> []" by auto
    then have "\<not> list_all (\<lambda>g. activityScore g = None) gs"
      using num by (cases gs) auto
    then have "sortGroups io gs = sort_key (\<lambda>g. - the (activityScore g)) gs"
      using long num by (simp add: sortGroups_def)
    moreover have "sorted (map (\<lambda>g. - the (activityScore g)) (sort_key (\<lambda>g. - the (activityScore g)) gs))"
      by (rule sorted_sort_key)
    ultimately show ?thesis
      by (simp add: sorted_map)
  qed
qed

lemma sorted_scoreGe:
  assumes "list_all (\<lambda>g. activityScore g \<noteq> None) gs"
    and "sorted_wrt (\<lambda>a b. the (activityScore a) \<ge> the (activityScore b)) gs"
  shows "sorted_wrt (\<lambda>a b. scoreGe (activityScore a) (activityScore b)) gs"
proof -
  have "scoreGe (activityScore a) (activityScore b) = (the (activityScore a) \<ge> the (activityScore b))"
    if "a \<in> set gs" "b \<in> set gs" for a b
    using that assms(1) by (auto simp: scoreGe_def list_all_iff split: option.splits)
  then show ?thesis
    using assms(2) by (simp add: sorted_wrt_iff_nth_less)
qed

lemma foldl_None:
  assumes "\<And>s. f None s = None"
    and "\<And>a s. (f (Some a) s = None) = (gt (lastActivityAt s) = None)"
  shows "(foldl f acc ss = None) = (acc = None \<or> (\<exists>s\<in>set ss. gt (lastActivityAt s) = None))"
proof (induction ss arbitrary: acc)
  case Nil
  then show ?case by simp
next
  case (Cons s ss)
  show ?case
  proof (cases acc)
    case None
    then show ?thesis by (simp add: Cons.IH assms(1))
  next
    case (Some a)
    then show ?thesis using assms(2)[of a s] by (auto simp: Cons.IH)
  qed
qed

lemma score_Some:
  "(calculateRepoActivityScore gt clockNow ss \<noteq> None) = (\<forall>s\<in>set ss. gt (lastActivityAt s) \<noteq> None)"
proof -
  have "(calculateRepoActivityScore gt clockNow ss = None) =
          (Some (0::real) = None \<or> (\<exists>s\<in>set ss. gt (lastActivityAt s) = None))"
    unfolding calculateRepoActivityScore_def
    by (rule foldl_None) (auto simp: Let_def split: option.splits)
  then show ?thesis by simp
qed

lemma groupsWithScores_numeric:
  assumes "\<forall>s\<in>set ss. gt (lastActivityAt s) \<noteq> None"
  shows "list_all (\<lambda>g. activityScore g \<noteq> None) (groupsWithScores gt clock ss)"
proof -
  have "activityScore g \<noteq> None" if "g \<in> set (groupsWithScores gt clock ss)" for g
  proof -
    from groupsWithScores_member[OF that] obtain k xs t
      where e: "(k, xs) \<in> set (groupEntries ss)" and g: "g = toRepoGroup gt t (k, xs)" by blast
    have "set xs \<subseteq> set ss" using groupEntries_entry[OF e] by auto
    then have "\<forall>s\<in>set xs. gt (lastActivityAt s) \<noteq> None"
      using assms by blast
    then have "calculateRepoActivityScore gt t xs \<noteq> None"
      by (simp only: score_Some)
    then show ?thesis by (simp add: g toRepoGroup_def)
  qed
  then show ?thesis by (simp add: list_all_iff)
qed

lemma groupsWithScores_entries:
  "map (\<lambda>g. (repoId g, sessions g)) (groupsWithScores gt clock ss) = groupEntries ss"
proof -
  have "map (\<lambda>g. (repoId g, sessions g)) (groupsWithScores gt clock ss) =
        map (\<lambda>x. (\<lambda>e. e) (fst x)) (zip (groupEntries ss) [0..<length (groupEntries ss)])"
    by (simp add: groupsWithScores_def toRepoGroup_def case_prod_beta comp_def)
  also have "\<dots> = map (\<lambda>e. e) (groupEntries ss)"
    by (rule map_fst_zip_upt)
  finally show ?thesis by simp
qed

lemma mset_concat_cong:
  assumes "mset xs = mset ys"
  shows "mset (concat (map f xs)) = mset (concat (map f ys))"
proof -
  have "\<And>zs. mset (concat (map f zs)) = sum_mset (image_mset (\<lambda>z. mset (f z)) (mset zs))"
    by (induct_tac zs) simp_all
  then show ?thesis using assms by simp
qed

subsection \<open>Grouping by repository\<close>

lemma groups_partition:
  assumes ms: "mset gs = mset (groupsWithScores gt clock ss)"
  shows "distinct (map repoId gs)
      \<and> (\<forall>g\<in>set gs. sessions g = filter (\<lambda>s. groupKey s = repoId g) ss \<and> sessions g \<noteq> []
            \<and> repoUrl g = (if repoId g = ''Other'' then None
                           else Some (''https://github.com/'' @ repoId g)))
      \<and> (\<forall>s\<in>set ss. \<exists>!g. g \<in> set gs \<and> s \<in> set (sessions g))
      \<and> (\<forall>s\<in>set ss. \<exists>g\<in>set gs. s \<in> set (sessions g)
            \<and> repoId g = (case gitRepoId s of None \<Rightarrow> ''Other'' | Some k \<Rightarrow> k))
      \<and> mset (concat (map sessions gs)) = mset ss"
proof (intro conjI)
  let ?G = "groupsWithScores gt clock ss"
  have st: "set gs = set ?G" using ms by (rule mset_eq_setD)
  have "mset (map repoId gs) = mset (map repoId ?G)" using ms by simp
  then have "distinct (map repoId gs) = distinct (map repoId ?G)"
    by (rule mset_eq_imp_distinct_iff)
  then show d: "distinct (map repoId gs)"
    by (simp add: groupsWithScores_repoId groupEntries_distinct)
  have grp: "sessions g = filter (\<lambda>s. groupKey s = repoId g) ss \<and> sessions g \<noteq> []
            \<and> repoUrl g = (if repoId g = ''Other'' then None
                           else Some (''https://github.com/'' @ repoId g))"
    if "g \<in> set gs" for g
  proof -
    from that st have "g \<in> set ?G" by simp
    from groupsWithScores_member[OF this] obtain k xs t
      where e: "(k, xs) \<in> set (groupEntries ss)" and g: "g = toRepoGroup gt t (k, xs)" by blast
    from groupEntries_entry[OF e] have xs: "xs = filter (\<lambda>s. groupKey s = k) ss"
      and k: "k \<in> groupKey ` set ss" by simp_all
    from k have "xs \<noteq> []" unfolding xs by (auto simp: filter_empty_conv)
    then show ?thesis using xs by (simp add: g toRepoGroup_def)
  qed
  then show "\<forall>g\<in>set gs. sessions g = filter (\<lambda>s. groupKey s = repoId g) ss \<and> sessions g \<noteq> []
            \<and> repoUrl g = (if repoId g = ''Other'' then None
                           else Some (''https://github.com/'' @ repoId g))"
    by blast
  have ex: "\<exists>g\<in>set gs. s \<in> set (sessions g) \<and> repoId g = groupKey s" if "s \<in> set ss" for s
  proof -
    have "map_of (groupEntries ss) (groupKey s) = Some (filter (\<lambda>x. groupKey x = groupKey s) ss)"
      using that by (simp add: groupEntries_map_of)
    then have "(groupKey s, filter (\<lambda>x. groupKey x = groupKey s) ss) \<in> set (groupEntries ss)"
      by (rule map_of_SomeD)
    then have "(groupKey s, filter (\<lambda>x. groupKey x = groupKey s) ss)
                 \<in> set (map (\<lambda>g. (repoId g, sessions g)) ?G)"
      by (simp only: groupsWithScores_entries)
    then obtain g where "g \<in> set ?G" and "repoId g = groupKey s"
      and "sessions g = filter (\<lambda>x. groupKey x = groupKey s) ss"
      by auto
    then have "g \<in> set gs \<and> s \<in> set (sessions g) \<and> repoId g = groupKey s"
      using that st by simp
    then show ?thesis by blast
  qed
  show "\<forall>s\<in>set ss. \<exists>g\<in>set gs. s \<in> set (sessions g)
            \<and> repoId g = (case gitRepoId s of None \<Rightarrow> ''Other'' | Some k \<Rightarrow> k)"
    using ex by (simp add: groupKey_def nullish_def)
  show "\<forall>s\<in>set ss. \<exists>!g. g \<in> set gs \<and> s \<in> set (sessions g)"
  proof
    fix s assume s: "s \<in> set ss"
    from ex[OF s] obtain g where g: "g \<in> set gs" "s \<in> set (sessions g)" by blast
    have "g' = g" if "g' \<in> set gs" "s \<in> set (sessions g')" for g'
    proof -
      have "repoId g' = groupKey s" using grp[OF that(1)] that(2) by auto
      moreover have "repoId g = groupKey s" using grp[OF g(1)] g(2) by auto
      moreover have "inj_on repoId (set gs)" using d by (simp add: distinct_map)
      ultimately show ?thesis using that(1) g(1) by (simp add: inj_on_def)
    qed
    then show "\<exists>!g. g \<in> set gs \<and> s \<in> set (sessions g)" using g by blast
  qed
  have "mset (concat (map sessions gs)) = mset (concat (map sessions ?G))"
    using ms by (rule mset_concat_cong)
  then show "mset (concat (map sessions gs)) = mset ss"
    by (simp add: groupsWithScores_sessions groupEntries_mset)
qed

lemma sampleRows_groups:
  "groupSessionsByRepo io sampleTime (\<lambda>k. 172800000) sampleRows =
     [\<lparr>repoId = ''acme/tool'', repoUrl = Some ''https://github.com/acme/tool'',
       sessions = [sampleRow ''s2'' (Some ''acme/tool'') Working ''1970-01-03T00:00:00.000Z'',
                   sampleRow ''s3'' (Some ''acme/tool'') Waiting ''1970-01-03T00:00:00.000Z''],
       activityScore = Some 150\<rparr>,
      \<lparr>repoId = ''Other'', repoUrl = None,
       sessions = [sampleRow ''s1'' None Idle ''1970-01-03T00:00:00.000Z''],
       activityScore = Some 1\<rparr>]"
  by (simp add: groupSessionsByRepo_def sortGroups_def groupsWithScores_def groupEntries_def
        addSession_def groupKey_def nullish_def sampleRows_def sampleRow_def toRepoGroup_def
        calculateRepoActivityScore_def sampleTime_def STATUS_WEIGHTS_def PENDING_TOOL_BONUS_def
        Let_def upt_rec)

lemma sampleUndated_groups:
  "groupSessionsByRepo io sampleTime (\<lambda>k. 172800000) sampleUndated =
     [\<lparr>repoId = ''acme/tool'', repoUrl = Some ''https://github.com/acme/tool'',
       sessions = [sampleRow ''u1'' (Some ''acme/tool'') Working ''not a date''],
       activityScore = None\<rparr>,
      \<lparr>repoId = ''Other'', repoUrl = None,
       sessions = [sampleRow ''u2'' None Working ''not a date''],
       activityScore = None\<rparr>]"
  by (simp add: groupSessionsByRepo_def sortGroups_def groupsWithScores_def groupEntries_def
        addSession_def groupKey_def nullish_def sampleUndated_def sampleRow_def toRepoGroup_def
        calculateRepoActivityScore_def sampleTime_def STATUS_WEIGHTS_def PENDING_TOOL_BONUS_def
        Let_def upt_rec)

lemma sampleMixed_groups:
  "groupSessionsByRepo io sampleTime (\<lambda>k. 172800000) sampleMixed =
     io [\<lparr>repoId = ''Other'', repoUrl = None,
          sessions = [sampleRow ''s1'' None Idle ''1970-01-03T00:00:00.000Z''],
          activityScore = Some 1\<rparr>,
         \<lparr>repoId = ''acme/tool'', repoUrl = Some ''https://github.com/acme/tool'',
          sessions = [sampleRow ''u1'' (Some ''acme/tool'') Working ''not a date''],
          activityScore = None\<rparr>,
         \<lparr>repoId = ''acme/web'', repoUrl = Some ''https://github.com/acme/web'',
          sessions = [sampleRow ''s2'' (Some ''acme/web'') Working ''1970-01-03T00:00:00.000Z''],
          activityScore = Some 100\<rparr>]"
  by (simp add: groupSessionsByRepo_def sortGroups_def groupsWithScores_def groupEntries_def
        addSession_def groupKey_def nullish_def sampleMixed_def sampleRow_def toRepoGroup_def
        calculateRepoActivityScore_def sampleTime_def STATUS_WEIGHTS_def PENDING_TOOL_BONUS_def
        Let_def upt_rec)

text \<open>
  Claim C9, with the order restricted to sessions whose last activity is a date. Let
  \<open>gs\<close> be the groups \<^verbatim>\<open>groupSessionsByRepo\<close> returns. When the implementation's order for
  an inconsistent comparator is a permutation, or every session's last activity is a
  date: the keys of the groups are distinct; each group holds exactly the input sessions
  whose key (\<^verbatim>\<open>gitRepoId\<close>, or \<open>Other\<close> when it is null) is the group's, in input order, and
  is not empty; the group keyed \<open>Other\<close> has a null URL and every other group the URL
  \<^verbatim>\<open>https://github.com/\<close> followed by its key; every input session is in exactly one
  group, the one of its key; and the groups together hold the input sessions with their
  multiplicities. When every session's last activity is a date, every score is a number,
  the groups are in non-increasing order of score, and the result does not depend on
  the implementation's order.
\<close>

theorem groupSessionsByRepo_partitions_and_sorts_dated_sessions:
  "groupSessionsByRepo io gt clock ss = gs \<longrightarrow>
     ((\<forall>xs. mset (io xs) = mset xs) \<or> (\<forall>s\<in>set ss. gt (lastActivityAt s) \<noteq> None) \<longrightarrow>
      distinct (map repoId gs)
      \<and> (\<forall>g\<in>set gs. sessions g = filter (\<lambda>s. groupKey s = repoId g) ss \<and> sessions g \<noteq> []
            \<and> repoUrl g = (if repoId g = ''Other'' then None
                           else Some (''https://github.com/'' @ repoId g)))
      \<and> (\<forall>s\<in>set ss. \<exists>!g. g \<in> set gs \<and> s \<in> set (sessions g))
      \<and> (\<forall>s\<in>set ss. \<exists>g\<in>set gs. s \<in> set (sessions g)
            \<and> repoId g = (case gitRepoId s of None \<Rightarrow> ''Other'' | Some k \<Rightarrow> k))
      \<and> mset (concat (map sessions gs)) = mset ss)
     \<and> ((\<forall>s\<in>set ss. gt (lastActivityAt s) \<noteq> None) \<longrightarrow>
          list_all (\<lambda>g. activityScore g \<noteq> None) gs
          \<and> sorted_wrt (\<lambda>a b. scoreGe (activityScore a) (activityScore b)) gs
          \<and> groupSessionsByRepo io' gt clock ss = gs)"
proof (rule impI)
  let ?G = "groupsWithScores gt clock ss"
  assume res: "groupSessionsByRepo io gt clock ss = gs"
  then have sg: "gs = sortGroups io ?G" by (simp add: groupSessionsByRepo_def)
  have A: "(\<forall>xs. mset (io xs) = mset xs) \<or> (\<forall>s\<in>set ss. gt (lastActivityAt s) \<noteq> None) \<longrightarrow>
      distinct (map repoId gs)
      \<and> (\<forall>g\<in>set gs. sessions g = filter (\<lambda>s. groupKey s = repoId g) ss \<and> sessions g \<noteq> []
            \<and> repoUrl g = (if repoId g = ''Other'' then None
                           else Some (''https://github.com/'' @ repoId g)))
      \<and> (\<forall>s\<in>set ss. \<exists>!g. g \<in> set gs \<and> s \<in> set (sessions g))
      \<and> (\<forall>s\<in>set ss. \<exists>g\<in>set gs. s \<in> set (sessions g)
            \<and> repoId g = (case gitRepoId s of None \<Rightarrow> ''Other'' | Some k \<Rightarrow> k))
      \<and> mset (concat (map sessions gs)) = mset ss"
  proof (rule impI)
    assume "(\<forall>xs. mset (io xs) = mset xs) \<or> (\<forall>s\<in>set ss. gt (lastActivityAt s) \<noteq> None)"
    then have "mset gs = mset ?G"
    proof
      assume "\<forall>xs. mset (io xs) = mset xs"
      then show ?thesis unfolding sg by (intro sortGroups_mset) simp
    next
      assume "\<forall>s\<in>set ss. gt (lastActivityAt s) \<noteq> None"
      then show ?thesis unfolding sg
        by (intro sortGroups_numeric(1) groupsWithScores_numeric)
    qed
    then show "distinct (map repoId gs)
      \<and> (\<forall>g\<in>set gs. sessions g = filter (\<lambda>s. groupKey s = repoId g) ss \<and> sessions g \<noteq> []
            \<and> repoUrl g = (if repoId g = ''Other'' then None
                           else Some (''https://github.com/'' @ repoId g)))
      \<and> (\<forall>s\<in>set ss. \<exists>!g. g \<in> set gs \<and> s \<in> set (sessions g))
      \<and> (\<forall>s\<in>set ss. \<exists>g\<in>set gs. s \<in> set (sessions g)
            \<and> repoId g = (case gitRepoId s of None \<Rightarrow> ''Other'' | Some k \<Rightarrow> k))
      \<and> mset (concat (map sessions gs)) = mset ss"
      by (rule groups_partition)
  qed
  have B: "(\<forall>s\<in>set ss. gt (lastActivityAt s) \<noteq> None) \<longrightarrow>
          list_all (\<lambda>g. activityScore g \<noteq> None) gs
          \<and> sorted_wrt (\<lambda>a b. scoreGe (activityScore a) (activityScore b)) gs
          \<and> groupSessionsByRepo io' gt clock ss = gs"
  proof (intro impI conjI)
    assume "\<forall>s\<in>set ss. gt (lastActivityAt s) \<noteq> None"
    then have num: "list_all (\<lambda>g. activityScore g \<noteq> None) ?G"
      by (rule groupsWithScores_numeric)
    show n2: "list_all (\<lambda>g. activityScore g \<noteq> None) gs"
      unfolding sg by (rule sortGroups_numeric(2)[OF num])
    have "sorted_wrt (\<lambda>a b. the (activityScore a) \<ge> the (activityScore b)) gs"
      unfolding sg by (rule sortGroups_sorted[OF num])
    then show "sorted_wrt (\<lambda>a b. scoreGe (activityScore a) (activityScore b)) gs"
      by (rule sorted_scoreGe[OF n2])
    show "groupSessionsByRepo io' gt clock ss = gs"
      unfolding sg groupSessionsByRepo_def by (rule sortGroups_numeric(3)[OF num])
  qed
  show "((\<forall>xs. mset (io xs) = mset xs) \<or> (\<forall>s\<in>set ss. gt (lastActivityAt s) \<noteq> None) \<longrightarrow>
      distinct (map repoId gs)
      \<and> (\<forall>g\<in>set gs. sessions g = filter (\<lambda>s. groupKey s = repoId g) ss \<and> sessions g \<noteq> []
            \<and> repoUrl g = (if repoId g = ''Other'' then None
                           else Some (''https://github.com/'' @ repoId g)))
      \<and> (\<forall>s\<in>set ss. \<exists>!g. g \<in> set gs \<and> s \<in> set (sessions g))
      \<and> (\<forall>s\<in>set ss. \<exists>g\<in>set gs. s \<in> set (sessions g)
            \<and> repoId g = (case gitRepoId s of None \<Rightarrow> ''Other'' | Some k \<Rightarrow> k))
      \<and> mset (concat (map sessions gs)) = mset ss)
     \<and> ((\<forall>s\<in>set ss. gt (lastActivityAt s) \<noteq> None) \<longrightarrow>
          list_all (\<lambda>g. activityScore g \<noteq> None) gs
          \<and> sorted_wrt (\<lambda>a b. scoreGe (activityScore a) (activityScore b)) gs
          \<and> groupSessionsByRepo io' gt clock ss = gs)"
    by (rule conjI[OF A B])
qed

text \<open>
  Claim C9 on three sample sessions, the first without a repository and the others in
  one repository, with an implementation that would reverse the list: two groups come
  back, the repository's (score 150) before \<open>Other\<close> (score 1); their keys are distinct,
  they hold the three sessions, and they are in non-increasing order of score.
\<close>

theorem groupSessionsByRepo_partitions_and_sorts_dated_sessions_witness:
  "map repoId (groupSessionsByRepo rev sampleTime (\<lambda>k. 172800000) sampleRows) = [''acme/tool'', ''Other'']
   \<and> map repoUrl (groupSessionsByRepo rev sampleTime (\<lambda>k. 172800000) sampleRows)
       = [Some ''https://github.com/acme/tool'', None]
   \<and> map activityScore (groupSessionsByRepo rev sampleTime (\<lambda>k. 172800000) sampleRows)
       = [Some 150, Some 1]
   \<and> distinct (map repoId (groupSessionsByRepo rev sampleTime (\<lambda>k. 172800000) sampleRows))
   \<and> mset (concat (map sessions (groupSessionsByRepo rev sampleTime (\<lambda>k. 172800000) sampleRows)))
       = mset sampleRows
   \<and> sorted_wrt (\<lambda>a b. scoreGe (activityScore a) (activityScore b))
       (groupSessionsByRepo rev sampleTime (\<lambda>k. 172800000) sampleRows)"
proof -
  let ?gs = "groupSessionsByRepo rev sampleTime (\<lambda>k. 172800000) sampleRows"
  have dated: "\<forall>s\<in>set sampleRows. sampleTime (lastActivityAt s) \<noteq> None"
    by (simp add: sampleRows_def sampleRow_def sampleTime_def)
  from groupSessionsByRepo_partitions_and_sorts_dated_sessions[of rev sampleTime "\<lambda>k. 172800000" sampleRows ?gs rev]
    dated
  have "distinct (map repoId ?gs)"
    and "mset (concat (map sessions ?gs)) = mset sampleRows"
    and "sorted_wrt (\<lambda>a b. scoreGe (activityScore a) (activityScore b)) ?gs"
    by blast+
  then show ?thesis by (simp add: sampleRows_groups)
qed

text \<open>
  Claim C9 as stated does not hold of sessions whose last activity is not a date (the
  schema admits any string): the score of their group is NaN, which no order places, and
  every comparison with it gives NaN, which counts as equal. Two such sessions in two
  repositories come back as two groups with NaN scores, and \<open>NaN \<ge> NaN\<close> is false. An
  idle session, a session that is no date and a working session, in three repositories,
  come back from an implementation that leaves a list it finds in order as it is (every
  comparison of neighbours gives NaN) as groups with the scores 1, NaN and 100 in this
  order, the score 100 after the score 1.
\<close>

theorem groups_of_undated_sessions_not_sorted:
  "(\<forall>io. map activityScore (groupSessionsByRepo io sampleTime (\<lambda>k. 172800000) sampleUndated)
           = [None, None]
         \<and> \<not> sorted_wrt (\<lambda>a b. scoreGe (activityScore a) (activityScore b))
               (groupSessionsByRepo io sampleTime (\<lambda>k. 172800000) sampleUndated))
   \<and> map repoId (groupSessionsByRepo (\<lambda>xs. xs) sampleTime (\<lambda>k. 172800000) sampleMixed)
       = [''Other'', ''acme/tool'', ''acme/web'']
   \<and> map activityScore (groupSessionsByRepo (\<lambda>xs. xs) sampleTime (\<lambda>k. 172800000) sampleMixed)
       = [Some 1, None, Some 100]
   \<and> \<not> sorted_wrt (\<lambda>a b. scoreGe (activityScore a) (activityScore b))
         (groupSessionsByRepo (\<lambda>xs. xs) sampleTime (\<lambda>k. 172800000) sampleMixed)
   \<and> \<not> scoreGe (Some 1) (Some 100)"
  by (simp add: sampleUndated_groups sampleMixed_groups scoreGe_def)

end
